theory Spec2Isabelle
  imports Main "HOL-Library.Word"
begin

section \<open>Types of the expression language (package checked, package types)\<close>

text \<open>
  A value of Go type \<open>*checked.Type\<close>. The nil pointer is a value of its own
  (\<open>NilType\<close>): the checker reads it from the type map for a node that has no entry
  (\<open>getType\<close>), binds it to the iteration variable of a comprehension whose range is
  not iterable, and may nest it below \<open>NewList\<close> and \<open>NewMap\<close>.
\<close>

datatype ty =
    NilType
  | Error
  | Dyn
  | Null
  | Bool
  | Int64
  | Uint64
  | Double
  | String
  | Bytes
  | NewList ty
  | NewMap ty ty
  | NewObject string
  | NewType ty
  | NewTypeParam string
  | NewFunction ty "ty list"
  | WellKnown string

datatype kind =
    KindUnknown
  | KindError
  | KindDyn
  | KindNull
  | KindPrimitive
  | KindList
  | KindMap
  | KindObject
  | KindType
  | KindTypeParam
  | KindFunction
  | KindWellKnown

text \<open>
  Modelled from the spec: \<open>types.KindOf\<close> is not in src; the spec says it yields the
  outer tag of a type. The nil type has kind \<open>KindUnknown\<close>, which the checker treats
  like every kind it does not name.
\<close>

fun KindOf :: "ty \<Rightarrow> kind" where
  "KindOf NilType = KindUnknown"
| "KindOf Error = KindError"
| "KindOf Dyn = KindDyn"
| "KindOf Null = KindNull"
| "KindOf (NewList _) = KindList"
| "KindOf (NewMap _ _) = KindMap"
| "KindOf (NewObject _) = KindObject"
| "KindOf (NewType _) = KindType"
| "KindOf (NewTypeParam _) = KindTypeParam"
| "KindOf (NewFunction _ _) = KindFunction"
| "KindOf (WellKnown _) = KindWellKnown"
| "KindOf _ = KindPrimitive"

text \<open>The generated getters of \<open>checked.Type\<close>: the zero value when the variant differs.\<close>

fun GetListType_ElemType :: "ty \<Rightarrow> ty" where
  "GetListType_ElemType (NewList t) = t"
| "GetListType_ElemType _ = NilType"

fun GetMapType_KeyType :: "ty \<Rightarrow> ty" where
  "GetMapType_KeyType (NewMap k v) = k"
| "GetMapType_KeyType _ = NilType"

fun GetMapType_ValueType :: "ty \<Rightarrow> ty" where
  "GetMapType_ValueType (NewMap k v) = v"
| "GetMapType_ValueType _ = NilType"

fun GetMessageType :: "ty \<Rightarrow> string" where
  "GetMessageType (NewObject n) = n"
| "GetMessageType _ = []"

fun GetType :: "ty \<Rightarrow> ty" where
  "GetType (NewType t) = t"
| "GetType _ = NilType"

fun GetFunction_ResultType :: "ty \<Rightarrow> ty" where
  "GetFunction_ResultType (NewFunction r ps) = r"
| "GetFunction_ResultType _ = NilType"

fun GetFunction_ArgTypes :: "ty \<Rightarrow> ty list" where
  "GetFunction_ArgTypes (NewFunction r ps) = ps"
| "GetFunction_ArgTypes _ = []"

section \<open>The parsed expression (package syntax)\<close>

text \<open>
  A literal, \<open>*expr.Constant\<close>, with its oneof \<open>ConstantKind\<close>; \<open>ConstantUnset\<close> is the
  message with no kind set. The integers are the 64 bits of the Go value, a double is
  the 64 bits of its IEEE 754 encoding.
\<close>

datatype Constant =
    BoolValue bool
  | BytesValue string
  | DoubleValue "64 word"
  | Int64Value "64 word"
  | NullValue
  | StringValue string
  | Uint64Value "64 word"
  | ConstantUnset

text \<open>
  An expression node carries its id first. A call's target is optional, as the code
  tests it against nil; every other child is present. An entry of a struct literal has
  its own id, a field key or a map key, and a value. \<open>ExprUnset\<close> is a node whose
  \<open>ExprKind\<close> is not set.
\<close>

datatype expr =
    ConstExpr int Constant
  | IdentExpr int string
  | SelectExpr int expr string bool
  | CallExpr int "expr option" string "expr list"
  | ListExpr int "expr list"
  | StructExpr int string "entry list"
  | ComprehensionExpr int string expr string expr expr expr expr
  | ExprUnset int
and entry =
    FieldEntry int string expr
  | MapEntry int expr expr

fun Id :: "expr \<Rightarrow> int" where
  "Id (ConstExpr i _) = i"
| "Id (IdentExpr i _) = i"
| "Id (SelectExpr i _ _ _) = i"
| "Id (CallExpr i _ _ _) = i"
| "Id (ListExpr i _) = i"
| "Id (StructExpr i _ _) = i"
| "Id (ComprehensionExpr i _ _ _ _ _ _ _) = i"
| "Id (ExprUnset i) = i"

fun entry_Id :: "entry \<Rightarrow> int" where
  "entry_Id (FieldEntry i _ _) = i"
| "entry_Id (MapEntry i _ _) = i"

record SourceInfo =
  Positions :: "int \<rightharpoonup> 32 word"
  LineOffsets :: "32 word list"

record ParsedExpr =
  GetExpr :: "expr option"
  GetSourceInfo :: SourceInfo

section \<open>Locations\<close>

datatype location = NoLocation | NewLocation int int

text \<open>
  The loop of \<open>locationById\<close> over the line offsets, with \<open>line\<close> and \<open>col\<close> as
  they stand on entry. Offsets are Go \<open>int32\<close>: the comparison is signed and the
  subtraction wraps before it is widened to \<open>int\<close>.
\<close>

fun scanLineOffsets :: "32 word \<Rightarrow> int \<Rightarrow> int \<Rightarrow> 32 word list \<Rightarrow> int \<times> int" where
  "scanLineOffsets offset line col [] = (line, col)"
| "scanLineOffsets offset line col (lineOffset # rest) =
     (if lineOffset <s offset
      then scanLineOffsets offset (line + 1) (sint (offset - lineOffset)) rest
      else (line, col))"

definition locationById :: "SourceInfo \<Rightarrow> int \<Rightarrow> location" where
  "locationById si i =
     (case Positions si i of
        Some offset \<Rightarrow>
          (case scanLineOffsets offset 1 (sint offset) (LineOffsets si) of
             (line, col) \<Rightarrow> NewLocation line col)
      | None \<Rightarrow> NoLocation)"


section \<open>Declarations, references and diagnostics\<close>

record Overload =
  OverloadId :: string
  TypeParams :: "string list"
  Params :: "ty list"
  ResultType :: ty
  IsInstanceFunction :: bool

text \<open>
  A \<open>checked.Decl\<close> is an identifier declaration or a function declaration; the
  environment keeps the two apart, so each has a record of its own.
\<close>

record IdentDecl =
  ident_Name :: string
  ident_Type :: ty
  ident_Value :: "Constant option"

record FunctionDecl =
  fn_Name :: string
  fn_Overloads :: "Overload list"

definition NewIdent :: "string \<Rightarrow> ty \<Rightarrow> Constant option \<Rightarrow> IdentDecl" where
  "NewIdent name t v = \<lparr>ident_Name = name, ident_Type = t, ident_Value = v\<rparr>"

record Reference =
  ref_Name :: string
  ref_OverloadId :: "string list"
  ref_Value :: "Constant option"

definition newIdentReference :: "string \<Rightarrow> Constant option \<Rightarrow> Reference" where
  "newIdentReference name v = \<lparr>ref_Name = name, ref_OverloadId = [], ref_Value = v\<rparr>"

definition newFunctionReference :: "string list \<Rightarrow> Reference" where
  "newFunctionReference overloads =
     \<lparr>ref_Name = [], ref_OverloadId = overloads, ref_Value = None\<rparr>"

text \<open>
  \<open>proto.Equal\<close> (github.com/golang/protobuf) on two \<open>*checked.Reference\<close>, the comparison
  of \<open>setReference\<close>. Two nil pointers are equal and a nil pointer equals no message;
  two messages are equal when their fields are: the name and the overload ids by value,
  the constant when both are nil or both are set to the same kind with equal payloads. A
  double payload is compared as Go compares two \<open>float64\<close> with \<open>==\<close>: a NaN (exponent
  bits all set, fraction not zero) equals nothing, itself included, and the two zeros
  (all bits clear below the sign bit) equal each other; any other two doubles are equal
  when their bits are.
\<close>

definition isNaN :: "64 word \<Rightarrow> bool" where
  "isNaN w = (0x7FF0000000000000 < take_bit 63 w)"

definition equalFloat64 :: "64 word \<Rightarrow> 64 word \<Rightarrow> bool" where
  "equalFloat64 a b =
     (\<not> isNaN a \<and> \<not> isNaN b \<and> (a = b \<or> (take_bit 63 a = 0 \<and> take_bit 63 b = 0)))"

fun equalConstant :: "Constant \<Rightarrow> Constant \<Rightarrow> bool" where
  "equalConstant (DoubleValue a) (DoubleValue b) = equalFloat64 a b"
| "equalConstant a b = (a = b)"

definition equalValue :: "Constant option \<Rightarrow> Constant option \<Rightarrow> bool" where
  "equalValue v w =
     (case v of
        None \<Rightarrow> w = None
      | Some a \<Rightarrow> (case w of None \<Rightarrow> False | Some b \<Rightarrow> equalConstant a b))"

definition equalReference :: "Reference option \<Rightarrow> Reference option \<Rightarrow> bool" where
  "equalReference old r =
     (case old of
        None \<Rightarrow> r = None
      | Some a \<Rightarrow>
          (case r of
             None \<Rightarrow> False
           | Some b \<Rightarrow>
               ref_Name a = ref_Name b \<and> ref_OverloadId a = ref_OverloadId b \<and>
               equalValue (ref_Value a) (ref_Value b)))"

text \<open>
  Modelled from the spec: the diagnostics sink \<open>env.errors\<close> is not in src. The spec
  lists the diagnostic kinds, each emitted with a location; the sink is the list of the
  diagnostics in the order they were emitted.
\<close>

datatype diagnostic =
    undeclaredReference location string string
  | expressionDoesNotSelectField location
  | fieldDoesNotSupportPresenceCheck location string
  | typeDoesNotSupportFieldSelection location ty
  | noMatchingOverload location string "ty list" bool
  | notAType location ty
  | notAMessageType location ty
  | fieldTypeMismatch location string ty ty
  | undefinedField location string
  | unexpectedFailedResolution location string
  | aggregateTypeMismatch location ty ty
  | notAComprehensionRange location ty
  | typeMismatch location ty ty

section \<open>The declaration environment\<close>

record FieldType =
  ft_Type :: ty
  SupportsPresence :: bool

text \<open>The injected type provider: two functions that the checker only reads.\<close>

record TypeProvider =
  LookupType :: "string \<Rightarrow> ty option"
  LookupFieldType :: "ty \<Rightarrow> string \<Rightarrow> FieldType option"

record Scope =
  scope_idents :: "IdentDecl list"
  scope_functions :: "FunctionDecl list"

text \<open>
  Modelled from the spec: \<open>Env\<close> and its operations are not in src. The spec describes
  a stack of scopes (here innermost first), each holding identifier and function
  declarations keyed by name; \<open>Add\<close> installs into the innermost scope; a lookup of
  \<open>N\<close> under container \<open>a.b.c\<close> tries \<open>a.b.c.N\<close>, \<open>a.b.N\<close>, \<open>a.N\<close>, \<open>N\<close> in that
  order and returns the first hit.
\<close>

record Env =
  declarations :: "Scope list"
  typeProvider :: TypeProvider
  errors :: "diagnostic list"

definition enterScope :: "Env \<Rightarrow> Env" where
  "enterScope E = E\<lparr>declarations := \<lparr>scope_idents = [], scope_functions = []\<rparr> # declarations E\<rparr>"

definition exitScope :: "Env \<Rightarrow> Env" where
  "exitScope E = E\<lparr>declarations := tl (declarations E)\<rparr>"

definition Add :: "Env \<Rightarrow> IdentDecl \<Rightarrow> Env" where
  "Add E d =
     (case declarations E of
        [] \<Rightarrow> E
      | s # ss \<Rightarrow> E\<lparr>declarations := s\<lparr>scope_idents := d # scope_idents s\<rparr> # ss\<rparr>)"

fun dotPrefixes :: "string \<Rightarrow> string \<Rightarrow> string list" where
  "dotPrefixes seen [] = []"
| "dotPrefixes seen (ch # rest) =
     (if ch = CHR ''.'' then rev seen # dotPrefixes (ch # seen) rest
      else dotPrefixes (ch # seen) rest)"

definition qualifiedNameCandidates :: "string \<Rightarrow> string \<Rightarrow> string list" where
  "qualifiedNameCandidates cont name =
     (if cont = [] then [name]
      else map (\<lambda>p. p @ ''.'' @ name) (cont # rev (dotPrefixes [] cont)) @ [name])"

fun firstHit :: "('a \<Rightarrow> 'b option) \<Rightarrow> 'a list \<Rightarrow> 'b option" where
  "firstHit f [] = None"
| "firstHit f (x # xs) = (case f x of Some y \<Rightarrow> Some y | None \<Rightarrow> firstHit f xs)"

definition FindIdent :: "Scope list \<Rightarrow> string \<Rightarrow> IdentDecl option" where
  "FindIdent ds name = firstHit (\<lambda>s. find (\<lambda>d. ident_Name d = name) (scope_idents s)) ds"

definition FindFunction :: "Scope list \<Rightarrow> string \<Rightarrow> FunctionDecl option" where
  "FindFunction ds name = firstHit (\<lambda>s. find (\<lambda>d. fn_Name d = name) (scope_functions s)) ds"

definition LookupIdent :: "Env \<Rightarrow> string \<Rightarrow> string \<Rightarrow> IdentDecl option" where
  "LookupIdent E cont name =
     firstHit (FindIdent (declarations E)) (qualifiedNameCandidates cont name)"

definition LookupFunction :: "Env \<Rightarrow> string \<Rightarrow> string \<Rightarrow> FunctionDecl option" where
  "LookupFunction E cont name =
     firstHit (FindFunction (declarations E)) (qualifiedNameCandidates cont name)"

text \<open>
  Modelled from the spec: \<open>asQualifiedName\<close> is not in src. The spec reads a whole
  selection chain as a qualified name by concatenating its identifier segments.
\<close>

fun asQualifiedName :: "expr \<Rightarrow> string option" where
  "asQualifiedName (IdentExpr i name) = Some name"
| "asQualifiedName (SelectExpr i operand field testOnly) =
     (case asQualifiedName operand of
        Some qname \<Rightarrow> Some (qname @ ''.'' @ field)
      | None \<Rightarrow> None)"
| "asQualifiedName _ = None"

section \<open>The functions of package types that the checker calls\<close>

text \<open>
  A substitution store (\<open>types.Mapping\<close>) as the list of its bindings, newest first.
  \<open>IsAssignable\<close>, \<open>IsAssignableList\<close>, \<open>MostGeneral\<close> and \<open>Substitute\<close> are not in
  src: the checker takes them as a parameter, so what is proved of the checker holds
  whatever they compute. A nil result of the first two is \<open>None\<close>.
\<close>

type_synonym Mapping = "(ty \<times> ty) list"

definition NewMapping :: Mapping where
  "NewMapping = []"

definition Mapping_Add :: "Mapping \<Rightarrow> ty \<Rightarrow> ty \<Rightarrow> Mapping" where
  "Mapping_Add m from to = (from, to) # m"

record TypesPackage =
  IsAssignable :: "Mapping \<Rightarrow> ty \<Rightarrow> ty \<Rightarrow> Mapping option"
  IsAssignableList :: "Mapping \<Rightarrow> ty list \<Rightarrow> ty list \<Rightarrow> Mapping option"
  MostGeneral :: "ty \<Rightarrow> ty \<Rightarrow> ty"
  Substitute :: "Mapping \<Rightarrow> ty \<Rightarrow> bool \<Rightarrow> ty"


section \<open>The checker state\<close>

text \<open>
  The struct \<open>checker\<close>. The environment is held by pointer in the code and shared
  with the caller; here it is part of the state, and \<open>Check\<close> returns its final value.
  The maps \<open>types\<close> and \<open>references\<close> store pointers: a reference entry can hold the
  nil pointer (\<open>Some None\<close>), a type entry can hold \<open>NilType\<close>. The counter is a Go
  \<open>int\<close> that only counts up from zero.
\<close>

record checker =
  env :: Env
  container :: string
  mappings :: Mapping
  freeTypeVarCounter :: nat
  sourceInfo :: SourceInfo
  types :: "int \<rightharpoonup> ty"
  references :: "int \<rightharpoonup> Reference option"

text \<open>The ways a call of the checker can end in a Go panic.\<close>

datatype panic =
    IncompatibleType int
  | ReferenceExists int
  | UnrecognizedAst
  | NilPointer

text \<open>
  \<open>setType\<close>, \<open>getType\<close>, \<open>setReference\<close> and \<open>location\<close> take the node's id, which
  is all they read of the node. Both setters compare with \<open>proto.Equal\<close>: on two types,
  which hold no floating-point field, that is equality of the values; on two references
  it is \<open>equalReference\<close>.
\<close>

definition setType :: "checker \<Rightarrow> int \<Rightarrow> ty \<Rightarrow> panic + checker" where
  "setType c i t =
     (case types c i of
        Some old \<Rightarrow>
          if old \<noteq> t then Inl (IncompatibleType i) else Inr (c\<lparr>types := (types c)(i \<mapsto> t)\<rparr>)
      | None \<Rightarrow> Inr (c\<lparr>types := (types c)(i \<mapsto> t)\<rparr>))"

definition getType :: "checker \<Rightarrow> int \<Rightarrow> ty" where
  "getType c i = (case types c i of Some t \<Rightarrow> t | None \<Rightarrow> NilType)"

definition setReference :: "checker \<Rightarrow> int \<Rightarrow> Reference option \<Rightarrow> panic + checker" where
  "setReference c i r =
     (case references c i of
        Some old \<Rightarrow>
          if \<not> equalReference old r then Inl (ReferenceExists i)
          else Inr (c\<lparr>references := (references c)(i \<mapsto> r)\<rparr>)
      | None \<Rightarrow> Inr (c\<lparr>references := (references c)(i \<mapsto> r)\<rparr>))"

definition location :: "checker \<Rightarrow> int \<Rightarrow> location" where
  "location c i = locationById (sourceInfo c) i"

definition report :: "checker \<Rightarrow> diagnostic \<Rightarrow> checker" where
  "report c d = c\<lparr>env := (env c)\<lparr>errors := errors (env c) @ [d]\<rparr>\<rparr>"

fun decimal :: "nat \<Rightarrow> string" where
  "decimal n =
     (if n < 10 then [char_of (48 + n)]
      else decimal (n div 10) @ [char_of (48 + n mod 10)])"

definition newTypeVar :: "checker \<Rightarrow> checker \<times> ty" where
  "newTypeVar c =
     (c\<lparr>freeTypeVarCounter := Suc (freeTypeVarCounter c)\<rparr>,
      NewTypeParam (''_var'' @ decimal (freeTypeVarCounter c)))"

definition isAssignable :: "TypesPackage \<Rightarrow> checker \<Rightarrow> ty \<Rightarrow> ty \<Rightarrow> checker \<times> bool" where
  "isAssignable X c t1 t2 =
     (case IsAssignable X (mappings c) t1 t2 of
        Some subs \<Rightarrow> (c\<lparr>mappings := subs\<rparr>, True)
      | None \<Rightarrow> (c, False))"

definition isAssignableList ::
  "TypesPackage \<Rightarrow> checker \<Rightarrow> ty list \<Rightarrow> ty list \<Rightarrow> checker \<times> bool" where
  "isAssignableList X c l1 l2 =
     (case IsAssignableList X (mappings c) l1 l2 of
        Some subs \<Rightarrow> (c\<lparr>mappings := subs\<rparr>, True)
      | None \<Rightarrow> (c, False))"

definition lookupFieldType ::
  "checker \<Rightarrow> location \<Rightarrow> ty \<Rightarrow> string \<Rightarrow> checker \<times> FieldType option" where
  "lookupFieldType c l messageType fieldName =
     (if LookupType (typeProvider (env c)) (GetMessageType messageType) = None
      then (report c (unexpectedFailedResolution l (GetMessageType messageType)), None)
      else (case LookupFieldType (typeProvider (env c)) messageType fieldName of
              Some ft \<Rightarrow> (c, Some ft)
            | None \<Rightarrow> (report c (undefinedField l fieldName), None)))"

definition joinTypes ::
  "TypesPackage \<Rightarrow> checker \<Rightarrow> location \<Rightarrow> ty \<Rightarrow> ty \<Rightarrow> checker \<times> ty" where
  "joinTypes X c loc previous current =
     (if previous = NilType then (c, current)
      else (case isAssignable X c previous current of
              (c1, False) \<Rightarrow> (report c1 (aggregateTypeMismatch loc previous current), previous)
            | (c1, True) \<Rightarrow> (c1, MostGeneral X previous current)))"

definition assertType :: "TypesPackage \<Rightarrow> checker \<Rightarrow> int \<Rightarrow> ty \<Rightarrow> checker" where
  "assertType X c i t =
     (case isAssignable X c t (getType c i) of
        (c1, False) \<Rightarrow> report c1 (typeMismatch (location c1 i) t (getType c1 i))
      | (c1, True) \<Rightarrow> c1)"

section \<open>Overload resolution\<close>

record overloadResolution =
  res_Reference :: "Reference option"
  res_Type :: ty

definition newResolution :: "Reference option \<Rightarrow> ty \<Rightarrow> overloadResolution" where
  "newResolution r t = \<lparr>res_Reference = r, res_Type = t\<rparr>"

text \<open>The loop that binds each declared type parameter to a fresh type variable.\<close>

fun freshSubstitutions :: "checker \<Rightarrow> Mapping \<Rightarrow> string list \<Rightarrow> checker \<times> Mapping" where
  "freshSubstitutions c substitutions [] = (c, substitutions)"
| "freshSubstitutions c substitutions (typePar # rest) =
     (case newTypeVar c of
        (c1, v) \<Rightarrow>
          freshSubstitutions c1 (Mapping_Add substitutions (NewTypeParam typePar) v) rest)"

text \<open>
  The overload's function type, instantiated when it declares type parameters.
\<close>

definition instantiate :: "TypesPackage \<Rightarrow> checker \<Rightarrow> Overload \<Rightarrow> checker \<times> ty" where
  "instantiate X c overload =
     (if TypeParams overload \<noteq> []
      then (case freshSubstitutions c NewMapping (TypeParams overload) of
              (c1, substitutions) \<Rightarrow>
                (c1, Substitute X substitutions
                       (NewFunction (ResultType overload) (Params overload)) False))
      else (c, NewFunction (ResultType overload) (Params overload)))"

text \<open>
  The loop of \<open>resolveOverload\<close> over the overloads, with \<open>resultType\<close> and \<open>ref\<close>
  as they stand on entry (both nil at first).
\<close>

fun resolveOverloads ::
  "TypesPackage \<Rightarrow> bool \<Rightarrow> ty list \<Rightarrow> checker \<Rightarrow> ty \<Rightarrow> Reference option \<Rightarrow> Overload list
     \<Rightarrow> checker \<times> ty \<times> Reference option" where
  "resolveOverloads X hasTarget argTypes c resultType ref [] = (c, resultType, ref)"
| "resolveOverloads X hasTarget argTypes c resultType ref (overload # rest) =
     (if (\<not> hasTarget \<and> IsInstanceFunction overload) \<or>
         (hasTarget \<and> \<not> IsInstanceFunction overload)
      then resolveOverloads X hasTarget argTypes c resultType ref rest
      else (case instantiate X c overload of
              (c1, overloadType) \<Rightarrow>
                (case isAssignableList X c1 argTypes (GetFunction_ArgTypes overloadType) of
                   (c2, True) \<Rightarrow>
                     resolveOverloads X hasTarget argTypes c2
                       (if resultType = NilType
                        then Substitute X (mappings c2) (GetFunction_ResultType overloadType) False
                        else Dyn)
                       (case ref of
                          None \<Rightarrow> Some (newFunctionReference [OverloadId overload])
                        | Some r \<Rightarrow>
                            Some (r\<lparr>ref_OverloadId := ref_OverloadId r @ [OverloadId overload]\<rparr>))
                       rest
                 | (c2, False) \<Rightarrow>
                     resolveOverloads X hasTarget argTypes c2 resultType ref rest)))"

definition resolveOverload ::
  "TypesPackage \<Rightarrow> checker \<Rightarrow> location \<Rightarrow> FunctionDecl \<Rightarrow> expr option \<Rightarrow> expr list
     \<Rightarrow> checker \<times> overloadResolution option" where
  "resolveOverload X c loc fn target args =
     (let argTypes =
            (case target of None \<Rightarrow> [] | Some t \<Rightarrow> [getType c (Id t)]) @
            map (\<lambda>arg. getType c (Id arg)) args
      in (case resolveOverloads X (target \<noteq> None) argTypes c NilType None (fn_Overloads fn) of
            (c1, resultType, ref) \<Rightarrow>
              if resultType = NilType
              then (report c1 (noMatchingOverload loc (fn_Name fn) argTypes (target \<noteq> None)),
                    None)
              else (c1, Some (newResolution ref resultType))))"


section \<open>The walker\<close>

definition checkIdent :: "checker \<Rightarrow> int \<Rightarrow> string \<Rightarrow> panic + checker" where
  "checkIdent c i name =
     (case LookupIdent (env c) (container c) name of
        Some ident \<Rightarrow>
          (case setType c i (ident_Type ident) of
             Inl p \<Rightarrow> Inl p
           | Inr c1 \<Rightarrow>
               setReference c1 i
                 (Some (newIdentReference (ident_Name ident) (ident_Value ident))))
      | None \<Rightarrow>
          (case setType c i Error of
             Inl p \<Rightarrow> Inl p
           | Inr c1 \<Rightarrow>
               Inr (report c1 (undeclaredReference (location c1 i) (container c1) name))))"

text \<open>
  \<open>checkSelect\<close>, first part: the declaration found for the selection read as a
  qualified identifier, if any.
\<close>

definition selectAsIdent :: "Env \<Rightarrow> string \<Rightarrow> expr \<Rightarrow> IdentDecl option" where
  "selectAsIdent E cont e =
     (case asQualifiedName e of
        Some qname \<Rightarrow> LookupIdent E cont qname
      | None \<Rightarrow> None)"

text \<open>
  \<open>checkSelect\<close>, the switch on the kind of the operand's type: the state after the
  diagnostics of the switch, and \<open>resultType\<close>.
\<close>

definition selectField ::
  "checker \<Rightarrow> int \<Rightarrow> ty \<Rightarrow> string \<Rightarrow> bool \<Rightarrow> checker \<times> ty" where
  "selectField c i targetType field testOnly =
     (case KindOf targetType of
        KindError \<Rightarrow> (c, Dyn)
      | KindDyn \<Rightarrow> (c, Dyn)
      | KindObject \<Rightarrow>
          (case lookupFieldType c (location c i) targetType field of
             (c1, Some fieldType) \<Rightarrow>
               (if testOnly \<and> \<not> SupportsPresence fieldType
                then report c1 (fieldDoesNotSupportPresenceCheck (location c1 i) field)
                else c1,
                ft_Type fieldType)
           | (c1, None) \<Rightarrow> (c1, Error))
      | KindMap \<Rightarrow> (c, GetMapType_ValueType targetType)
      | _ \<Rightarrow> (report c (typeDoesNotSupportFieldSelection (location c i) targetType), Error))"

text \<open>
  \<open>checkCall\<close>: the function that the target, read as a qualified name, names with
  the call's function name; the attempt to resolve the call as a static call of it; the
  look-up of the call's function name by itself; and the last statement, which writes
  the resolution.
\<close>

definition staticFunction :: "Env \<Rightarrow> string \<Rightarrow> expr \<Rightarrow> string \<Rightarrow> FunctionDecl option" where
  "staticFunction E cont target function =
     (case asQualifiedName target of
        Some qname \<Rightarrow> LookupFunction E cont (qname @ ''.'' @ function)
      | None \<Rightarrow> None)"

definition resolveStatic ::
  "TypesPackage \<Rightarrow> checker \<Rightarrow> int \<Rightarrow> expr \<Rightarrow> string \<Rightarrow> expr list
     \<Rightarrow> checker \<times> overloadResolution option" where
  "resolveStatic X c i target function args =
     (case staticFunction (env c) (container c) target function of
        Some fn \<Rightarrow> resolveOverload X c (location c i) fn None args
      | None \<Rightarrow> (c, None))"

definition resolveNamed ::
  "TypesPackage \<Rightarrow> checker \<Rightarrow> int \<Rightarrow> expr option \<Rightarrow> string \<Rightarrow> expr list
     \<Rightarrow> checker \<times> overloadResolution option" where
  "resolveNamed X c i target function args =
     (case LookupFunction (env c) (container c) function of
        Some fn \<Rightarrow> resolveOverload X c (location c i) fn target args
      | None \<Rightarrow> (report c (undeclaredReference (location c i) (container c) function), None))"

definition setResolution :: "checker \<Rightarrow> int \<Rightarrow> overloadResolution option \<Rightarrow> panic + checker" where
  "setResolution c i resolution =
     (case resolution of
        Some r \<Rightarrow>
          (case setType c i (res_Type r) of
             Inl p \<Rightarrow> Inl p
           | Inr c1 \<Rightarrow> setReference c1 i (res_Reference r))
      | None \<Rightarrow> setType c i Error)"

text \<open>\<open>checkCreateMessage\<close>: the message type of the declaration found for the name.\<close>

definition messageTypeOf :: "checker \<Rightarrow> int \<Rightarrow> IdentDecl \<Rightarrow> checker \<times> ty" where
  "messageTypeOf c i ident =
     (if KindOf (ident_Type ident) \<noteq> KindError
      then (if KindOf (ident_Type ident) \<noteq> KindType
            then (report c (notAType (location c i) (ident_Type ident)), Error)
            else (if KindOf (GetType (ident_Type ident)) \<noteq> KindObject
                  then (report c (notAMessageType (location c i) (GetType (ident_Type ident))),
                        Error)
                  else (c, GetType (ident_Type ident))))
      else (c, Error))"

text \<open>
  \<open>checkCreateMessage\<close>: what the loop does for one entry once its value has been
  checked.
\<close>

definition checkFieldType ::
  "TypesPackage \<Rightarrow> checker \<Rightarrow> ty \<Rightarrow> int \<Rightarrow> string \<Rightarrow> int \<Rightarrow> checker" where
  "checkFieldType X c messageType entId field valueId =
     (case (case lookupFieldType c (locationById (sourceInfo c) entId) messageType field of
              (c1, Some t) \<Rightarrow> (c1, ft_Type t)
            | (c1, None) \<Rightarrow> (c1, Error)) of
        (c1, fieldType) \<Rightarrow>
          (case isAssignable X c1 fieldType (getType c1 valueId) of
             (c2, False) \<Rightarrow>
               report c2 (fieldTypeMismatch (locationById (sourceInfo c2) entId) field fieldType
                            (getType c2 valueId))
           | (c2, True) \<Rightarrow> c2))"

text \<open>
  \<open>checkComprehension\<close>: the switch on the kind of the range's type. \<open>varType\<close> is
  declared without a value, so it is nil where the switch does not assign it.
\<close>

definition iterVarType :: "checker \<Rightarrow> int \<Rightarrow> ty \<Rightarrow> checker \<times> ty" where
  "iterVarType c rangeId rangeType =
     (case KindOf rangeType of
        KindList \<Rightarrow> (c, GetListType_ElemType rangeType)
      | KindMap \<Rightarrow> (c, GetMapType_KeyType rangeType)
      | KindDyn \<Rightarrow> (c, Dyn)
      | KindError \<Rightarrow> (c, Dyn)
      | _ \<Rightarrow> (report c (notAComprehensionRange (location c rangeId) rangeType), NilType))"

definition bindVar :: "checker \<Rightarrow> string \<Rightarrow> ty \<Rightarrow> checker" where
  "bindVar c name t = c\<lparr>env := Add (enterScope (env c)) (NewIdent name t None)\<rparr>"

definition leaveScope :: "checker \<Rightarrow> checker" where
  "leaveScope c = c\<lparr>env := exitScope (env c)\<rparr>"

text \<open>
  \<open>check\<close> with the \<open>check...\<close> methods it dispatches to, one equation for each kind
  of node, and the loops of those methods over arguments, list elements, map entries and
  field initialisers. A constant whose kind is not set is left without a type; a node
  whose kind is not set panics. In a map literal an entry with a field key has no map
  key: \<open>check\<close> returns at once for the nil key and \<open>location\<close> then dereferences it.
\<close>

fun check :: "TypesPackage \<Rightarrow> checker \<Rightarrow> expr \<Rightarrow> panic + checker"
and checkArgs :: "TypesPackage \<Rightarrow> checker \<Rightarrow> expr list \<Rightarrow> panic + checker"
and checkElements ::
  "TypesPackage \<Rightarrow> checker \<Rightarrow> ty \<Rightarrow> expr list \<Rightarrow> panic + checker \<times> ty"
and checkMapEntries ::
  "TypesPackage \<Rightarrow> checker \<Rightarrow> ty \<Rightarrow> ty \<Rightarrow> entry list \<Rightarrow> panic + checker \<times> ty \<times> ty"
and checkFieldInitializers ::
  "TypesPackage \<Rightarrow> checker \<Rightarrow> ty \<Rightarrow> entry list \<Rightarrow> panic + checker" where
  "check X c (ConstExpr i k) =
     (case k of
        BoolValue _ \<Rightarrow> setType c i Bool
      | BytesValue _ \<Rightarrow> setType c i Bytes
      | DoubleValue _ \<Rightarrow> setType c i Double
      | Int64Value _ \<Rightarrow> setType c i Int64
      | NullValue \<Rightarrow> setType c i Null
      | StringValue _ \<Rightarrow> setType c i String
      | Uint64Value _ \<Rightarrow> setType c i Uint64
      | ConstantUnset \<Rightarrow> Inr c)"
| "check X c (IdentExpr i name) = checkIdent c i name"
| "check X c (SelectExpr i operand field testOnly) =
     (case selectAsIdent (env c) (container c) (SelectExpr i operand field testOnly) of
        Some ident \<Rightarrow>
          (if testOnly
           then setType (report c (expressionDoesNotSelectField (location c i))) i Bool
           else (case setType c i (ident_Type ident) of
                   Inl p \<Rightarrow> Inl p
                 | Inr c1 \<Rightarrow>
                     setReference c1 i
                       (Some (newIdentReference (ident_Name ident) (ident_Value ident)))))
      | None \<Rightarrow>
          (case check X c operand of
             Inl p \<Rightarrow> Inl p
           | Inr c1 \<Rightarrow>
               (case selectField c1 i (getType c1 (Id operand)) field testOnly of
                  (c2, resultType) \<Rightarrow> setType c2 i (if testOnly then Bool else resultType))))"
| "check X c (CallExpr i target function args) =
     (case checkArgs X c args of
        Inl p \<Rightarrow> Inl p
      | Inr c1 \<Rightarrow>
          (case target of
             None \<Rightarrow>
               (case resolveNamed X c1 i None function args of
                  (c2, resolution) \<Rightarrow> setResolution c2 i resolution)
           | Some t \<Rightarrow>
               (case resolveStatic X c1 i t function args of
                  (c2, Some r) \<Rightarrow> setResolution c2 i (Some r)
                | (c2, None) \<Rightarrow>
                    (case check X c2 t of
                       Inl p \<Rightarrow> Inl p
                     | Inr c3 \<Rightarrow>
                         (case resolveNamed X c3 i (Some t) function args of
                            (c4, resolution) \<Rightarrow> setResolution c4 i resolution)))))"
| "check X c (ListExpr i elements) =
     (case checkElements X c NilType elements of
        Inl p \<Rightarrow> Inl p
      | Inr (c1, elemType) \<Rightarrow>
          (case (if elemType = NilType then newTypeVar c1 else (c1, elemType)) of
             (c2, elemType') \<Rightarrow> setType c2 i (NewList elemType')))"
| "check X c (StructExpr i messageName entries) =
     (if messageName \<noteq> []
      then (case LookupIdent (env c) (container c) messageName of
              None \<Rightarrow> Inr (report c (undeclaredReference (location c i) (container c) messageName))
            | Some decl \<Rightarrow>
                (case setReference c i (Some (newIdentReference (ident_Name decl) None)) of
                   Inl p \<Rightarrow> Inl p
                 | Inr c1 \<Rightarrow>
                     (case messageTypeOf c1 i decl of
                        (c2, messageType) \<Rightarrow>
                          (case setType c2 i messageType of
                             Inl p \<Rightarrow> Inl p
                           | Inr c3 \<Rightarrow> checkFieldInitializers X c3 messageType entries))))
      else (case checkMapEntries X c NilType NilType entries of
              Inl p \<Rightarrow> Inl p
            | Inr (c1, keyType, valueType) \<Rightarrow>
                (if keyType = NilType
                 then (case newTypeVar c1 of
                         (c2, keyType') \<Rightarrow>
                           (case newTypeVar c2 of
                              (c3, valueType') \<Rightarrow> setType c3 i (NewMap keyType' valueType')))
                 else setType c1 i (NewMap keyType valueType))))"
| "check X c (ComprehensionExpr i iterVar iterRange accuVar accuInit loopCondition loopStep
       result) =
     (case check X c iterRange of
        Inl p \<Rightarrow> Inl p
      | Inr c1 \<Rightarrow>
          (case check X c1 accuInit of
             Inl p \<Rightarrow> Inl p
           | Inr c2 \<Rightarrow>
               (case iterVarType c2 (Id iterRange) (getType c2 (Id iterRange)) of
                  (c3, varType) \<Rightarrow>
                    (case check X
                            (bindVar (bindVar c3 accuVar (getType c2 (Id accuInit))) iterVar varType)
                            loopCondition of
                       Inl p \<Rightarrow> Inl p
                     | Inr c4 \<Rightarrow>
                         (case check X (assertType X c4 (Id loopCondition) Bool) loopStep of
                            Inl p \<Rightarrow> Inl p
                          | Inr c5 \<Rightarrow>
                              (case check X
                                      (leaveScope (assertType X c5 (Id loopStep)
                                                (getType c2 (Id accuInit))))
                                      result of
                                 Inl p \<Rightarrow> Inl p
                               | Inr c6 \<Rightarrow>
                                   setType (leaveScope c6) i (getType (leaveScope c6) (Id result))))))))"
| "check X c (ExprUnset i) = Inl UnrecognizedAst"
| "checkArgs X c [] = Inr c"
| "checkArgs X c (arg # rest) =
     (case check X c arg of
        Inl p \<Rightarrow> Inl p
      | Inr c1 \<Rightarrow> checkArgs X c1 rest)"
| "checkElements X c elemType [] = Inr (c, elemType)"
| "checkElements X c elemType (e # rest) =
     (case check X c e of
        Inl p \<Rightarrow> Inl p
      | Inr c1 \<Rightarrow>
          (case joinTypes X c1 (location c1 (Id e)) elemType (getType c1 (Id e)) of
             (c2, elemType') \<Rightarrow> checkElements X c2 elemType' rest))"
| "checkMapEntries X c keyType valueType [] = Inr (c, keyType, valueType)"
| "checkMapEntries X c keyType valueType (FieldEntry entId field v # rest) = Inl NilPointer"
| "checkMapEntries X c keyType valueType (MapEntry entId key v # rest) =
     (case check X c key of
        Inl p \<Rightarrow> Inl p
      | Inr c1 \<Rightarrow>
          (case joinTypes X c1 (location c1 (Id key)) keyType (getType c1 (Id key)) of
             (c2, keyType') \<Rightarrow>
               (case check X c2 v of
                  Inl p \<Rightarrow> Inl p
                | Inr c3 \<Rightarrow>
                    (case joinTypes X c3 (location c3 (Id v)) valueType (getType c3 (Id v)) of
                       (c4, valueType') \<Rightarrow> checkMapEntries X c4 keyType' valueType' rest))))"
| "checkFieldInitializers X c messageType [] = Inr c"
| "checkFieldInitializers X c messageType (FieldEntry entId field v # rest) =
     (case check X c v of
        Inl p \<Rightarrow> Inl p
      | Inr c1 \<Rightarrow>
          checkFieldInitializers X (checkFieldType X c1 messageType entId field (Id v))
            messageType rest)"
| "checkFieldInitializers X c messageType (MapEntry entId key v # rest) =
     (case check X c v of
        Inl p \<Rightarrow> Inl p
      | Inr c1 \<Rightarrow>
          checkFieldInitializers X (checkFieldType X c1 messageType entId [] (Id v))
            messageType rest)"

section \<open>The entry point\<close>

record CheckedExpr =
  Expr :: "expr option"
  SourceInfo :: SourceInfo
  TypeMap :: "int \<rightharpoonup> ty"
  ReferenceMap :: "int \<rightharpoonup> Reference option"

definition newChecker :: "ParsedExpr \<Rightarrow> Env \<Rightarrow> string \<Rightarrow> checker" where
  "newChecker parsedExpr E cont =
     \<lparr>env = E, container = cont, mappings = NewMapping, freeTypeVarCounter = 0,
      sourceInfo = GetSourceInfo parsedExpr, types = Map.empty, references = Map.empty\<rparr>"

text \<open>
  \<open>Check\<close> returns the annotated expression; the environment it was given by pointer
  holds the diagnostics afterwards, so its final value is returned beside it.
\<close>

definition Check ::
  "TypesPackage \<Rightarrow> ParsedExpr \<Rightarrow> Env \<Rightarrow> string \<Rightarrow> panic + CheckedExpr \<times> Env" where
  "Check X parsedExpr E cont =
     (case (case GetExpr parsedExpr of
              None \<Rightarrow> Inr (newChecker parsedExpr E cont)
            | Some e \<Rightarrow> check X (newChecker parsedExpr E cont) e) of
        Inl p \<Rightarrow> Inl p
      | Inr c \<Rightarrow>
          Inr (\<lparr>Expr = GetExpr parsedExpr, SourceInfo = GetSourceInfo parsedExpr,
                TypeMap = (\<lambda>k. map_option (\<lambda>v. Substitute X (mappings c) v True) (types c k)),
                ReferenceMap = references c\<rparr>,
               env c))"

section \<open>A types package modelled from the spec\<close>

text \<open>
  Modelled from the spec: \<open>types.Substitute\<close>, \<open>types.IsAssignable\<close>,
  \<open>types.IsAssignableList\<close> and \<open>types.MostGeneral\<close> are not in src. The definitions
  below follow the spec's rules for them and serve as the types package of the concrete
  examples. Following a binding may lead to a type that is bound again; the recursion is
  bounded (by the number of bindings for \<open>Substitute\<close>, by \<open>comparisonFuel\<close> for
  assignability), a bound that a store without cyclic bindings, which the occurs check
  keeps it to be, does not reach.
\<close>

fun occursIn :: "ty \<Rightarrow> ty \<Rightarrow> bool" where
  "occursIn p (NewTypeParam q) = (p = NewTypeParam q)"
| "occursIn p (NewList t) = occursIn p t"
| "occursIn p (NewMap k v) = (occursIn p k \<or> occursIn p v)"
| "occursIn p (NewType t) = occursIn p t"
| "occursIn p (NewFunction r ps) = (occursIn p r \<or> list_ex (occursIn p) ps)"
| "occursIn p _ = False"

fun nodes :: "ty \<Rightarrow> nat" where
  "nodes (NewList t) = Suc (nodes t)"
| "nodes (NewMap k v) = Suc (nodes k + nodes v)"
| "nodes (NewType t) = Suc (nodes t)"
| "nodes (NewFunction r ps) = Suc (nodes r + sum_list (map nodes ps))"
| "nodes _ = 1"

fun substituteFuel :: "nat \<Rightarrow> Mapping \<Rightarrow> bool \<Rightarrow> ty \<Rightarrow> ty" where
  "substituteFuel n m collapse (NewTypeParam p) =
     (case map_of m (NewTypeParam p) of
        Some t \<Rightarrow>
          (case n of
             Suc k \<Rightarrow> substituteFuel k m collapse t
           | 0 \<Rightarrow> if collapse then Dyn else NewTypeParam p)
      | None \<Rightarrow> if collapse then Dyn else NewTypeParam p)"
| "substituteFuel n m collapse (NewList t) = NewList (substituteFuel n m collapse t)"
| "substituteFuel n m collapse (NewMap k v) =
     NewMap (substituteFuel n m collapse k) (substituteFuel n m collapse v)"
| "substituteFuel n m collapse (NewType t) = NewType (substituteFuel n m collapse t)"
| "substituteFuel n m collapse (NewFunction r ps) =
     NewFunction (substituteFuel n m collapse r) (map (substituteFuel n m collapse) ps)"
| "substituteFuel n m collapse t = t"

definition spec_Substitute :: "Mapping \<Rightarrow> ty \<Rightarrow> bool \<Rightarrow> ty" where
  "spec_Substitute m t collapse = substituteFuel (length m) m collapse t"

definition isPrimitive :: "ty \<Rightarrow> bool" where
  "isPrimitive t = (t \<in> {Null, Bool, Int64, Uint64, Double, String, Bytes})"

definition bindParam :: "Mapping \<Rightarrow> ty \<Rightarrow> ty \<Rightarrow> Mapping option" where
  "bindParam m p t =
     (if occursIn p (spec_Substitute m t False) then None else Some (Mapping_Add m p t))"

fun assignablePairs ::
  "(Mapping \<Rightarrow> ty \<Rightarrow> ty \<Rightarrow> Mapping option) \<Rightarrow> Mapping \<Rightarrow> ty list \<Rightarrow> ty list \<Rightarrow> Mapping option" where
  "assignablePairs f m [] [] = Some m"
| "assignablePairs f m (x # xs) (y # ys) =
     (case f m x y of
        Some m1 \<Rightarrow> assignablePairs f m1 xs ys
      | None \<Rightarrow> None)"
| "assignablePairs f m _ _ = None"

primrec assignableFuel :: "nat \<Rightarrow> Mapping \<Rightarrow> ty \<Rightarrow> ty \<Rightarrow> Mapping option" where
  "assignableFuel 0 m t1 t2 = None"
| "assignableFuel (Suc n) m t1 t2 =
     (if t1 \<in> {Dyn, Error} \<or> t2 \<in> {Dyn, Error} then Some m
      else if isPrimitive t1 \<and> t1 = t2 then Some m
      else if KindOf t1 = KindTypeParam
      then (case map_of m t1 of
              Some b \<Rightarrow> assignableFuel n m b t2
            | None \<Rightarrow> bindParam m t1 t2)
      else if KindOf t2 = KindTypeParam
      then (case map_of m t2 of
              Some b \<Rightarrow> assignableFuel n m t1 b
            | None \<Rightarrow> bindParam m t2 t1)
      else (case t1 of
              NewList a \<Rightarrow>
                (case t2 of NewList b \<Rightarrow> assignableFuel n m a b | _ \<Rightarrow> None)
            | NewMap ka va \<Rightarrow>
                (case t2 of
                   NewMap kb vb \<Rightarrow>
                     (case assignableFuel n m ka kb of
                        Some m1 \<Rightarrow> assignableFuel n m1 va vb
                      | None \<Rightarrow> None)
                 | _ \<Rightarrow> None)
            | NewObject a \<Rightarrow>
                (case t2 of NewObject b \<Rightarrow> if a = b then Some m else None | _ \<Rightarrow> None)
            | NewType a \<Rightarrow>
                (case t2 of NewType b \<Rightarrow> assignableFuel n m a b | _ \<Rightarrow> None)
            | NewFunction ra pas \<Rightarrow>
                (case t2 of
                   NewFunction rb pbs \<Rightarrow>
                     (case assignableFuel n m ra rb of
                        Some m1 \<Rightarrow> assignablePairs (assignableFuel n) m1 pas pbs
                      | None \<Rightarrow> None)
                 | _ \<Rightarrow> None)
            | _ \<Rightarrow> None))"


definition comparisonFuel :: "Mapping \<Rightarrow> ty list \<Rightarrow> nat" where
  "comparisonFuel m ts =
     (let k = length m + sum_list (map nodes ts) + sum_list (map (\<lambda>b. nodes (snd b)) m)
      in (2 * k + 1) * (k + 1))"

definition spec_IsAssignable :: "Mapping \<Rightarrow> ty \<Rightarrow> ty \<Rightarrow> Mapping option" where
  "spec_IsAssignable m t1 t2 = assignableFuel (comparisonFuel m [t1, t2]) m t1 t2"

definition spec_IsAssignableList :: "Mapping \<Rightarrow> ty list \<Rightarrow> ty list \<Rightarrow> Mapping option" where
  "spec_IsAssignableList m l1 l2 =
     assignablePairs (assignableFuel (comparisonFuel m (l1 @ l2))) m l1 l2"

definition spec_MostGeneral :: "ty \<Rightarrow> ty \<Rightarrow> ty" where
  "spec_MostGeneral t1 t2 = (if t1 = Dyn \<or> t2 = Dyn then Dyn else t1)"

definition spec_types :: TypesPackage where
  "spec_types =
     \<lparr>IsAssignable = spec_IsAssignable, IsAssignableList = spec_IsAssignableList,
      MostGeneral = spec_MostGeneral, Substitute = spec_Substitute\<rparr>"

section \<open>The location resolver as the specification words it\<close>

text \<open>
  The specification's formula for a recorded offset: the line is one more than the
  number of line offsets strictly less than the offset; the column is the offset minus
  the last line offset strictly less than it, and the offset itself when there is none.
\<close>

definition spec_locationById :: "SourceInfo \<Rightarrow> int \<Rightarrow> location" where
  "spec_locationById si i =
     (case Positions si i of
        None \<Rightarrow> NoLocation
      | Some offset \<Rightarrow>
          (let before = filter (\<lambda>lineOffset. lineOffset <s offset) (LineOffsets si)
           in NewLocation (1 + int (length before))
                (if before = [] then sint offset else sint offset - sint (last before))))"

section \<open>Matching overloads as the specification words them\<close>

text \<open>
  The overloads of a declaration that match a call, in declaration order, as the
  specification's algorithm finds them: an overload is skipped when its instance flag
  does not fit the presence of a receiver; otherwise its function type is instantiated
  and it matches when \<open>IsAssignableList\<close> succeeds on the argument types and its
  parameter types, and then the store it returns becomes the checker's. Each match is
  listed with the result type of its instantiated function type and with the checker as
  it stands right after the match.
\<close>

fun matchingOverloads ::
  "TypesPackage \<Rightarrow> bool \<Rightarrow> ty list \<Rightarrow> checker \<Rightarrow> Overload list
     \<Rightarrow> (Overload \<times> ty \<times> checker) list" where
  "matchingOverloads X hasTarget argTypes c [] = []"
| "matchingOverloads X hasTarget argTypes c (overload # rest) =
     (if IsInstanceFunction overload \<noteq> hasTarget
      then matchingOverloads X hasTarget argTypes c rest
      else (case instantiate X c overload of
              (c1, overloadType) \<Rightarrow>
                (case IsAssignableList X (mappings c1) argTypes
                        (GetFunction_ArgTypes overloadType) of
                   Some store \<Rightarrow>
                     (overload, GetFunction_ResultType overloadType, c1\<lparr>mappings := store\<rparr>) #
                     matchingOverloads X hasTarget argTypes (c1\<lparr>mappings := store\<rparr>) rest
                 | None \<Rightarrow> matchingOverloads X hasTarget argTypes c1 rest)))"

text \<open>The argument types of a call: the receiver's type first when there is one.\<close>

definition callArgTypes :: "checker \<Rightarrow> expr option \<Rightarrow> expr list \<Rightarrow> ty list" where
  "callArgTypes c target args =
     (case target of None \<Rightarrow> [] | Some t \<Rightarrow> [getType c (Id t)]) @
     map (\<lambda>arg. getType c (Id arg)) args"

section \<open>Node ids, frames and fully walked expressions\<close>

text \<open>
  The ids of the expression nodes of a subtree, the node's own first. The ids of struct
  entries are not among them: they only serve to locate diagnostics.
\<close>

fun ids :: "expr \<Rightarrow> int list"
and entryIds :: "entry \<Rightarrow> int list" where
  "ids (ConstExpr i k) = [i]"
| "ids (IdentExpr i name) = [i]"
| "ids (SelectExpr i operand field testOnly) = i # ids operand"
| "ids (CallExpr i target function args) =
     i # (case target of None \<Rightarrow> [] | Some t \<Rightarrow> ids t) @ concat (map ids args)"
| "ids (ListExpr i elements) = i # concat (map ids elements)"
| "ids (StructExpr i messageName entries) = i # concat (map entryIds entries)"
| "ids (ComprehensionExpr i iterVar iterRange accuVar accuInit loopCondition loopStep result) =
     i # ids iterRange @ ids accuInit @ ids loopCondition @ ids loopStep @ ids result"
| "ids (ExprUnset i) = [i]"
| "entryIds (FieldEntry entId field v) = ids v"
| "entryIds (MapEntry entId key v) = ids key @ ids v"

text \<open>No entry of the type map or of the reference map at any of the ids.\<close>

definition unwritten :: "checker \<Rightarrow> int list \<Rightarrow> bool" where
  "unwritten c js = list_all (\<lambda>j. types c j = None \<and> references c j = None) js"

text \<open>
  \<open>c'\<close> differs from \<open>c\<close> at most in the entries of the two maps at the ids \<open>js\<close>,
  in the substitution store, the counter and the diagnostics.
\<close>

definition framed :: "int list \<Rightarrow> checker \<Rightarrow> checker \<Rightarrow> bool" where
  "framed js c c' =
     ((\<forall>j. j \<notin> set js \<longrightarrow> types c' j = types c j \<and> references c' j = references c j) \<and>
      sourceInfo c' = sourceInfo c \<and> container c' = container c \<and>
      typeProvider (env c') = typeProvider (env c) \<and>
      declarations (env c') = declarations (env c))"

text \<open>The names that the scopes of an environment declare.\<close>

definition declNames :: "Env \<Rightarrow> (string list \<times> string list) list" where
  "declNames E =
     map (\<lambda>s. (map ident_Name (scope_idents s), map fn_Name (scope_functions s)))
       (declarations E)"

text \<open>
  An expression that the walker walks in full under the declarations of \<open>E\<close>: every
  node and constant has its kind set; no selection resolves as a qualified identifier;
  no receiver reads as a qualified name that, with the function name, is in the
  function table; the message name of every message literal resolves, its entries have
  field keys, and the entries of a map literal have map keys. The variables of a
  comprehension are in scope where the code declares them; their types play no part.
\<close>

fun walked :: "Env \<Rightarrow> string \<Rightarrow> expr \<Rightarrow> bool"
and walkedField :: "Env \<Rightarrow> string \<Rightarrow> entry \<Rightarrow> bool"
and walkedMapEntry :: "Env \<Rightarrow> string \<Rightarrow> entry \<Rightarrow> bool" where
  "walked E cont (ConstExpr i k) = (k \<noteq> ConstantUnset)"
| "walked E cont (IdentExpr i name) = True"
| "walked E cont (SelectExpr i operand field testOnly) =
     (selectAsIdent E cont (SelectExpr i operand field testOnly) = None \<and>
      walked E cont operand)"
| "walked E cont (CallExpr i target function args) =
     (list_all (walked E cont) args \<and>
      (case target of
         None \<Rightarrow> True
       | Some t \<Rightarrow> staticFunction E cont t function = None \<and> walked E cont t))"
| "walked E cont (ListExpr i elements) = list_all (walked E cont) elements"
| "walked E cont (StructExpr i messageName entries) =
     (if messageName \<noteq> []
      then LookupIdent E cont messageName \<noteq> None \<and> list_all (walkedField E cont) entries
      else list_all (walkedMapEntry E cont) entries)"
| "walked E cont
     (ComprehensionExpr i iterVar iterRange accuVar accuInit loopCondition loopStep result) =
     (walked E cont iterRange \<and> walked E cont accuInit \<and>
      walked (Add (enterScope (Add (enterScope E) (NewIdent accuVar NilType None)))
                (NewIdent iterVar NilType None)) cont loopCondition \<and>
      walked (Add (enterScope (Add (enterScope E) (NewIdent accuVar NilType None)))
                (NewIdent iterVar NilType None)) cont loopStep \<and>
      walked (Add (enterScope E) (NewIdent accuVar NilType None)) cont result)"
| "walked E cont (ExprUnset i) = False"
| "walkedField E cont (FieldEntry entId field v) = walked E cont v"
| "walkedField E cont (MapEntry entId key v) = False"
| "walkedMapEntry E cont (FieldEntry entId field v) = False"
| "walkedMapEntry E cont (MapEntry entId key v) = (walked E cont key \<and> walked E cont v)"

text \<open>A type in which a type parameter occurs.\<close>

fun hasTypeParam :: "ty \<Rightarrow> bool" where
  "hasTypeParam (NewTypeParam p) = True"
| "hasTypeParam (NewList t) = hasTypeParam t"
| "hasTypeParam (NewMap k v) = (hasTypeParam k \<or> hasTypeParam v)"
| "hasTypeParam (NewType t) = hasTypeParam t"
| "hasTypeParam (NewFunction r ps) = (hasTypeParam r \<or> list_ex hasTypeParam ps)"
| "hasTypeParam _ = False"

text \<open>
  \<open>c'\<close> differs from \<open>c\<close> at most in the substitution store, the counter and the
  diagnostics.
\<close>

definition steady :: "checker \<Rightarrow> checker \<Rightarrow> bool" where
  "steady c c' =
     (types c' = types c \<and> references c' = references c \<and> sourceInfo c' = sourceInfo c \<and>
      container c' = container c \<and> typeProvider (env c') = typeProvider (env c) \<and>
      declarations (env c') = declarations (env c))"

text \<open>Every one of the ids has an entry in the type map.\<close>

definition typed :: "checker \<Rightarrow> int list \<Rightarrow> bool" where
  "typed c js = list_all (\<lambda>j. types c j \<noteq> None) js"

text \<open>The panics of \<open>setType\<close> and \<open>setReference\<close>: the internal-error signal.\<close>

fun internalError :: "panic \<Rightarrow> bool" where
  "internalError (IncompatibleType i) = True"
| "internalError (ReferenceExists i) = True"
| "internalError _ = False"

text \<open>The reference is set and its constant is a double.\<close>

definition holdsDouble :: "Reference option \<Rightarrow> bool" where
  "holdsDouble r =
     (case r of
        None \<Rightarrow> False
      | Some a \<Rightarrow> (case ref_Value a of Some (DoubleValue w) \<Rightarrow> True | _ \<Rightarrow> False))"

section \<open>The loop of a comprehension\<close>

text \<open>
  \<open>checkComprehension\<close> from the check of the loop condition on, in the state
  \<open>inner\<close> in which the code has entered both scopes: the statements after the two
  calls of \<open>Add\<close>.
\<close>

definition checkLoop ::
  "TypesPackage \<Rightarrow> checker \<Rightarrow> int \<Rightarrow> ty \<Rightarrow> expr \<Rightarrow> expr \<Rightarrow> expr \<Rightarrow> panic + checker" where
  "checkLoop X inner i accuType loopCondition loopStep result =
     (case check X inner loopCondition of
        Inl p \<Rightarrow> Inl p
      | Inr c4 \<Rightarrow>
          (case check X (assertType X c4 (Id loopCondition) Bool) loopStep of
             Inl p \<Rightarrow> Inl p
           | Inr c5 \<Rightarrow>
               (case check X (leaveScope (assertType X c5 (Id loopStep) accuType)) result of
                  Inl p \<Rightarrow> Inl p
                | Inr c6 \<Rightarrow> setType (leaveScope c6) i (getType (leaveScope c6) (Id result)))))"

section \<open>Concrete inputs\<close>

definition no_provider :: TypeProvider where
  "no_provider = \<lparr>LookupType = (\<lambda>n. None), LookupFieldType = (\<lambda>t f. None)\<rparr>"

definition no_source :: SourceInfo where
  "no_source = \<lparr>Positions = Map.empty, LineOffsets = []\<rparr>"

definition empty_env :: Env where
  "empty_env =
     \<lparr>declarations = [\<lparr>scope_idents = [], scope_functions = []\<rparr>],
      typeProvider = no_provider, errors = []\<rparr>"

text \<open>A source of two lines, the second starting after offset 4; node 7 is at offset 6.\<close>

definition two_line_source :: SourceInfo where
  "two_line_source = \<lparr>Positions = [7 \<mapsto> 6], LineOffsets = [4, 9]\<rparr>"

text \<open>Node 1 at offset 0, the first byte of the text.\<close>

definition first_byte_source :: SourceInfo where
  "first_byte_source = \<lparr>Positions = [1 \<mapsto> 0], LineOffsets = [4, 9]\<rparr>"

text \<open>Line offsets that are not in ascending order.\<close>

definition unordered_source :: SourceInfo where
  "unordered_source = \<lparr>Positions = [1 \<mapsto> 5], LineOffsets = [10, 3]\<rparr>"

text \<open>A checker as \<open>Check\<close> sets it up, with no source positions and an empty container.\<close>

definition start :: "Env \<Rightarrow> checker" where
  "start E = newChecker \<lparr>GetExpr = None, GetSourceInfo = no_source\<rparr> E []"

text \<open>
  \<open>has(x.f)\<close> where \<open>x.f\<close> is a declared identifier, and \<open>has({}.f)\<close> on an
  empty map literal.
\<close>

definition x_f_env :: Env where
  "x_f_env =
     \<lparr>declarations = [\<lparr>scope_idents = [NewIdent ''x.f'' Int64 None], scope_functions = []\<rparr>],
      typeProvider = no_provider, errors = []\<rparr>"

definition has_x_f :: expr where
  "has_x_f = SelectExpr 1 (IdentExpr 2 ''x'') ''f'' True"

definition has_map_f :: expr where
  "has_map_f = SelectExpr 1 (StructExpr 2 [] []) ''f'' True"

text \<open>
  The function \<open>_+_\<close> with an overload on integers and a generic one, and two
  argument lists for it.
\<close>

definition add_overloads :: "Overload list" where
  "add_overloads =
     [\<lparr>OverloadId = ''add_int64'', TypeParams = [], Params = [Int64, Int64],
       ResultType = Int64, IsInstanceFunction = False\<rparr>,
      \<lparr>OverloadId = ''add_generic'', TypeParams = [''T''],
       Params = [NewTypeParam ''T'', NewTypeParam ''T''],
       ResultType = NewTypeParam ''T'', IsInstanceFunction = False\<rparr>]"

definition add_fn :: FunctionDecl where
  "add_fn = \<lparr>fn_Name = ''_+_'', fn_Overloads = add_overloads\<rparr>"

definition add_env :: Env where
  "add_env =
     \<lparr>declarations = [\<lparr>scope_idents = [], scope_functions = [add_fn]\<rparr>],
      typeProvider = no_provider, errors = []\<rparr>"

definition int_args :: "expr list" where
  "int_args = [ConstExpr 2 (Int64Value 1), ConstExpr 3 (Int64Value 2)]"

definition string_args :: "expr list" where
  "string_args = [ConstExpr 2 (StringValue ''a''), ConstExpr 3 (StringValue ''b'')]"

definition parsed :: "expr \<Rightarrow> ParsedExpr" where
  "parsed e = \<lparr>GetExpr = Some e, GetSourceInfo = no_source\<rparr>"

text \<open>
  \<open>a.f()\<close> where the function table has a static function \<open>a.f\<close> without
  parameters; a message literal whose message name \<open>Msg\<close> is not declared; and the
  selection \<open>x.f\<close>, for the environment that declares the identifier \<open>x.f\<close>.
\<close>

definition a_f_overload :: Overload where
  "a_f_overload =
     \<lparr>OverloadId = ''a_f'', TypeParams = [], Params = [], ResultType = Int64,
      IsInstanceFunction = False\<rparr>"

definition static_env :: Env where
  "static_env =
     \<lparr>declarations =
        [\<lparr>scope_idents = [],
          scope_functions = [\<lparr>fn_Name = ''a.f'', fn_Overloads = [a_f_overload]\<rparr>]\<rparr>],
      typeProvider = no_provider, errors = []\<rparr>"

definition call_a_f :: expr where
  "call_a_f = CallExpr 1 (Some (IdentExpr 2 ''a'')) ''f'' []"

definition unknown_message :: expr where
  "unknown_message = StructExpr 1 ''Msg'' [FieldEntry 3 ''x'' (ConstExpr 2 (Int64Value 1))]"

definition select_x_f :: expr where
  "select_x_f = SelectExpr 1 (IdentExpr 2 ''x'') ''f'' False"

text \<open>\<open>[] + []\<close>, and a list holding a node whose kind is not set.\<close>

definition generic_lists :: expr where
  "generic_lists = CallExpr 1 None ''_+_'' [ListExpr 2 [], ListExpr 3 []]"

definition unset_element :: expr where
  "unset_element = ListExpr 1 [ExprUnset 2]"

text \<open>
  Environments in which the static function \<open>a.f\<close> takes one integer, so that
  \<open>a.f()\<close> matches no overload of it: one with nothing else, one that also has an
  instance function \<open>f\<close> on any receiver.
\<close>

definition a_f_int_overload :: Overload where
  "a_f_int_overload =
     \<lparr>OverloadId = ''a_f_int'', TypeParams = [], Params = [Int64], ResultType = Int64,
      IsInstanceFunction = False\<rparr>"

definition f_any_overload :: Overload where
  "f_any_overload =
     \<lparr>OverloadId = ''f_any'', TypeParams = [], Params = [Dyn], ResultType = Bool,
      IsInstanceFunction = True\<rparr>"

definition arity_env :: Env where
  "arity_env =
     \<lparr>declarations =
        [\<lparr>scope_idents = [],
          scope_functions = [\<lparr>fn_Name = ''a.f'', fn_Overloads = [a_f_int_overload]\<rparr>]\<rparr>],
      typeProvider = no_provider, errors = []\<rparr>"

definition fallback_env :: Env where
  "fallback_env =
     \<lparr>declarations =
        [\<lparr>scope_idents = [],
          scope_functions =
            [\<lparr>fn_Name = ''a.f'', fn_Overloads = [a_f_int_overload]\<rparr>,
             \<lparr>fn_Name = ''f'', fn_Overloads = [f_any_overload]\<rparr>]\<rparr>],
      typeProvider = no_provider, errors = []\<rparr>"

text \<open>
  \<open>true.f()\<close> where the instance function \<open>f\<close> is declared on integers only, and
  \<open>true + 1\<close>.
\<close>

definition f_int_overload :: Overload where
  "f_int_overload =
     \<lparr>OverloadId = ''f_int'', TypeParams = [], Params = [Int64], ResultType = Bool,
      IsInstanceFunction = True\<rparr>"

definition method_env :: Env where
  "method_env =
     \<lparr>declarations =
        [\<lparr>scope_idents = [],
          scope_functions = [\<lparr>fn_Name = ''f'', fn_Overloads = [f_int_overload]\<rparr>]\<rparr>],
      typeProvider = no_provider, errors = []\<rparr>"

definition true_f :: expr where
  "true_f = CallExpr 1 (Some (ConstExpr 2 (BoolValue True))) ''f'' []"

definition mixed_args :: "expr list" where
  "mixed_args = [ConstExpr 2 (BoolValue True), ConstExpr 3 (Int64Value 1)]"

text \<open>
  A comprehension over the integer \<open>1\<close>, with accumulator \<open>acc\<close> initialised to
  \<open>true\<close> and iteration variable \<open>x\<close>: the loop condition is \<open>x\<close>, the loop step
  \<open>acc\<close>, the result \<open>x\<close>.
\<close>

definition bad_range :: expr where
  "bad_range =
     ComprehensionExpr 1 ''x'' (ConstExpr 2 (Int64Value 1)) ''acc''
       (ConstExpr 3 (BoolValue True)) (IdentExpr 4 ''x'') (IdentExpr 5 ''acc'')
       (IdentExpr 6 ''x'')"

text \<open>
  The generic function \<open>id\<close> with the one overload \<open>id_T\<close> from \<open>T\<close> to \<open>T\<close>, and
  the argument list of \<open>id(Msg{})\<close>; the checker after the arguments of a call have been
  checked in the empty environment.
\<close>

definition id_fn :: FunctionDecl where
  "id_fn =
     \<lparr>fn_Name = ''id'',
      fn_Overloads =
        [\<lparr>OverloadId = ''id_T'', TypeParams = [''T''], Params = [NewTypeParam ''T''],
          ResultType = NewTypeParam ''T'', IsInstanceFunction = False\<rparr>]\<rparr>"

definition message_args :: "expr list" where
  "message_args = [StructExpr 2 ''Msg'' []]"

definition after_args :: "expr list \<Rightarrow> checker" where
  "after_args args = projr (checkArgs spec_types (start empty_env) args)"

text \<open>
  References to an identifier \<open>x\<close> whose value is the double constant \<open>+0.0\<close>,
  \<open>-0.0\<close>, and a NaN.
\<close>

definition positive_zero :: "Reference option" where
  "positive_zero = Some (newIdentReference ''x'' (Some (DoubleValue 0)))"

definition negative_zero :: "Reference option" where
  "negative_zero = Some (newIdentReference ''x'' (Some (DoubleValue 0x8000000000000000)))"

definition not_a_number :: "Reference option" where
  "not_a_number = Some (newIdentReference ''x'' (Some (DoubleValue 0x7FF8000000000000)))"

section \<open>Writes to the type map and the diagnostics sink\<close>

lemma setType_Inr:
  "setType c i t = Inr c' \<Longrightarrow> c' = c\<lparr>types := (types c)(i \<mapsto> t)\<rparr>"
  by (auto simp: setType_def split: option.splits if_splits)

lemma setType_first:
  "types c i = None \<Longrightarrow> setType c i t = Inr (c\<lparr>types := (types c)(i \<mapsto> t)\<rparr>)"
  by (simp add: setType_def)

lemma setType_again:
  "types c i = Some t \<Longrightarrow> setType c i t = Inr (c\<lparr>types := (types c)(i \<mapsto> t)\<rparr>)"
  by (simp add: setType_def)

lemma types_report [simp]: "types (report c d) = types c"
  by (simp add: report_def)

lemma references_report [simp]: "references (report c d) = references c"
  by (simp add: report_def)

lemma errors_report [simp]: "errors (env (report c d)) = errors (env c) @ [d]"
  by (simp add: report_def)

lemma types_lookupFieldType [simp]: "types (fst (lookupFieldType c l t f)) = types c"
  by (simp add: lookupFieldType_def split: option.splits)

lemma types_selectField [simp]: "types (fst (selectField c i t f b)) = types c"
  by (cases "KindOf t")
     (auto simp: selectField_def split: prod.splits option.splits
           dest: arg_cong [where f = "\<lambda>p. types (fst p)"])

lemma decimal_digits: "char_of (48 :: nat) = CHR ''0''" "char_of (49 :: nat) = CHR ''1''"
  by code_simp+

section \<open>Steps that leave the maps and the scopes alone\<close>

lemma steady_refl [simp]: "steady c c"
  by (simp add: steady_def)

lemma steady_trans: "steady c c1 \<Longrightarrow> steady c1 c2 \<Longrightarrow> steady c c2"
  by (simp add: steady_def)

lemma steady_report [simp]: "steady c (report c d)"
  by (simp add: steady_def report_def)

lemma steady_newTypeVar: "newTypeVar c = (c', v) \<Longrightarrow> steady c c'"
  by (auto simp: steady_def newTypeVar_def)

lemma steady_freshSubstitutions: "freshSubstitutions c subs ps = (c', subs') \<Longrightarrow> steady c c'"
proof (induction ps arbitrary: c subs)
  case Nil
  then show ?case by simp
next
  case (Cons p ps)
  then show ?case
    by (auto split: prod.splits dest: steady_newTypeVar intro: steady_trans)
qed

lemma steady_instantiate: "instantiate X c overload = (c', t) \<Longrightarrow> steady c c'"
  by (auto simp: instantiate_def split: if_splits prod.splits dest: steady_freshSubstitutions)

lemma steady_isAssignable: "isAssignable X c t1 t2 = (c', b) \<Longrightarrow> steady c c'"
  by (auto simp: isAssignable_def steady_def split: option.splits)

lemma steady_isAssignableList: "isAssignableList X c l1 l2 = (c', b) \<Longrightarrow> steady c c'"
  by (auto simp: isAssignableList_def steady_def split: option.splits)

lemma steady_lookupFieldType: "lookupFieldType c l t f = (c', r) \<Longrightarrow> steady c c'"
  by (auto simp: lookupFieldType_def split: if_splits option.splits)

lemma steady_joinTypes: "joinTypes X c l p t = (c', r) \<Longrightarrow> steady c c'"
  by (auto simp: joinTypes_def split: if_splits prod.splits bool.splits
           dest!: steady_isAssignable intro: steady_trans [OF _ steady_report])

lemma steady_assertType [simp]: "steady c (assertType X c i t)"
  by (auto simp: assertType_def split: prod.splits bool.splits
           dest!: steady_isAssignable intro: steady_trans [OF _ steady_report])

lemma steady_selectField: "selectField c i t f b = (c', r) \<Longrightarrow> steady c c'"
  by (cases "KindOf t")
     (auto simp: selectField_def split: prod.splits option.splits if_splits
           dest!: steady_lookupFieldType intro: steady_trans [OF _ steady_report])

lemma steady_resolveOverloads:
  "resolveOverloads X h a c rt ref os = (c', rt', ref') \<Longrightarrow> steady c c'"
proof (induction os arbitrary: c rt ref)
  case Nil
  then show ?case by simp
next
  case (Cons overload os)
  then show ?case
    by (auto split: if_splits prod.splits bool.splits
             dest!: steady_instantiate steady_isAssignableList intro: steady_trans)
qed

lemma steady_resolveOverload: "resolveOverload X c l fn target args = (c', r) \<Longrightarrow> steady c c'"
  by (auto simp: resolveOverload_def Let_def split: prod.splits if_splits
           dest!: steady_resolveOverloads intro: steady_trans [OF _ steady_report])

lemma steady_resolveStatic: "resolveStatic X c i t f args = (c', r) \<Longrightarrow> steady c c'"
  by (auto simp: resolveStatic_def split: option.splits dest: steady_resolveOverload)

lemma steady_resolveNamed: "resolveNamed X c i t f args = (c', r) \<Longrightarrow> steady c c'"
  by (auto simp: resolveNamed_def split: option.splits dest: steady_resolveOverload)

lemma steady_messageTypeOf: "messageTypeOf c i d = (c', t) \<Longrightarrow> steady c c'"
  by (auto simp: messageTypeOf_def split: if_splits)

lemma steady_checkFieldType [simp]: "steady c (checkFieldType X c mt ei f vi)"
  by (auto simp: checkFieldType_def split: prod.splits option.splits bool.splits
           dest!: steady_lookupFieldType steady_isAssignable
           intro: steady_trans steady_trans [OF _ steady_trans [OF _ steady_report]])

lemma steady_iterVarType: "iterVarType c i t = (c', v) \<Longrightarrow> steady c c'"
  by (cases "KindOf t") (auto simp: iterVarType_def)

section \<open>The walker writes only at the ids of the nodes it is given\<close>

lemma framed_refl [simp]: "framed js c c"
  by (simp add: framed_def)

lemma framed_trans: "framed js c c1 \<Longrightarrow> framed ks c1 c2 \<Longrightarrow> framed (js @ ks) c c2"
  by (simp add: framed_def)

lemma framed_mono: "framed js c c' \<Longrightarrow> set js \<subseteq> set ks \<Longrightarrow> framed ks c c'"
  by (auto simp: framed_def)

lemma framed_steady: "steady c c' \<Longrightarrow> framed [] c c'"
  by (simp add: framed_def steady_def)

lemma framed_steady_left: "steady c c1 \<Longrightarrow> framed js c1 c2 \<Longrightarrow> framed js c c2"
  by (simp add: framed_def steady_def)

lemma framed_steady_right: "framed js c c1 \<Longrightarrow> steady c1 c2 \<Longrightarrow> framed js c c2"
  by (simp add: framed_def steady_def)

lemma framed_setType: "setType c i t = Inr c' \<Longrightarrow> framed [i] c c'"
  by (auto simp: framed_def dest!: setType_Inr)

lemma setReference_Inr:
  "setReference c i r = Inr c' \<Longrightarrow> c' = c\<lparr>references := (references c)(i \<mapsto> r)\<rparr>"
  by (auto simp: setReference_def split: option.splits if_splits)

lemma framed_setReference: "setReference c i r = Inr c' \<Longrightarrow> framed [i] c c'"
  by (auto simp: framed_def dest!: setReference_Inr)

lemma framed_setResolution: "setResolution c i r = Inr c' \<Longrightarrow> framed [i] c c'"
  by (auto simp: setResolution_def split: option.splits sum.splits
           dest!: framed_setType framed_setReference dest: framed_trans intro: framed_mono)

lemma framed_checkIdent: "checkIdent c i n = Inr c' \<Longrightarrow> framed [i] c c'"
  by (auto simp: checkIdent_def split: option.splits sum.splits
           dest!: framed_setType framed_setReference dest: framed_trans
           intro: framed_mono framed_steady_right)


lemma types_bindVar [simp]: "types (bindVar c n t) = types c"
  and references_bindVar [simp]: "references (bindVar c n t) = references c"
  and sourceInfo_bindVar [simp]: "sourceInfo (bindVar c n t) = sourceInfo c"
  and container_bindVar [simp]: "container (bindVar c n t) = container c"
  and typeProvider_bindVar [simp]: "typeProvider (env (bindVar c n t)) = typeProvider (env c)"
  and declarations_bindVar [simp]:
    "declarations (env (bindVar c n t)) =
       \<lparr>scope_idents = [NewIdent n t None], scope_functions = []\<rparr> # declarations (env c)"
  by (simp_all add: bindVar_def Add_def enterScope_def)

lemma types_leaveScope [simp]: "types (leaveScope c) = types c"
  and references_leaveScope [simp]: "references (leaveScope c) = references c"
  and sourceInfo_leaveScope [simp]: "sourceInfo (leaveScope c) = sourceInfo c"
  and container_leaveScope [simp]: "container (leaveScope c) = container c"
  and typeProvider_leaveScope [simp]: "typeProvider (env (leaveScope c)) = typeProvider (env c)"
  and declarations_leaveScope [simp]:
    "declarations (env (leaveScope c)) = tl (declarations (env c))"
  by (simp_all add: leaveScope_def exitScope_def)

lemma check_framed:
  "check X c e = Inr c' \<Longrightarrow> framed (ids e) c c'"
  and checkArgs_framed:
    "checkArgs X c args = Inr c' \<Longrightarrow> framed (concat (map ids args)) c c'"
  and checkElements_framed:
    "checkElements X c t es = Inr (c', t') \<Longrightarrow> framed (concat (map ids es)) c c'"
  and checkMapEntries_framed:
    "checkMapEntries X c kt vt ents = Inr (c', kt', vt') \<Longrightarrow>
       framed (concat (map entryIds ents)) c c'"
  and checkFieldInitializers_framed:
    "checkFieldInitializers X c mt ents = Inr c' \<Longrightarrow>
       framed (concat (map entryIds ents)) c c'"
proof (induction X c e and X c args and X c t es and X c kt vt ents and X c mt ents
    arbitrary: c' and c' and c' t' and c' kt' vt' and c'
    rule: check_checkArgs_checkElements_checkMapEntries_checkFieldInitializers.induct)
  case (1 X c i k)
  then show ?case
    by (cases k) (auto dest: framed_setType)
next
  case (2 X c i name)
  then show ?case by (auto dest: framed_checkIdent)
next
  case (3 X c i operand field testOnly)
  show ?case
  proof (cases "selectAsIdent (env c) (container c) (SelectExpr i operand field testOnly)")
    case (Some ident)
    then show ?thesis
      using "3.prems"
      by (auto split: if_splits sum.splits
               dest!: framed_setType framed_setReference dest: framed_trans
               intro: framed_mono framed_steady_left [OF steady_report])
  next
    case None
    then obtain c1 c2 rt where
      o: "check X c operand = Inr c1"
      and s: "selectField c1 i (getType c1 (Id operand)) field testOnly = (c2, rt)"
      and t: "setType c2 i (if testOnly then Bool else rt) = Inr c'"
      using "3.prems" by (auto split: sum.splits prod.splits)
    have "framed (ids operand) c c1" using "3.IH" None o by simp
    then have "framed (ids operand) c c2"
      using steady_selectField [OF s] by (rule framed_steady_right)
    then have "framed (ids operand @ [i]) c c'"
      using framed_setType [OF t] by (rule framed_trans)
    then show ?thesis by (rule framed_mono) auto
  qed
next
  case (4 X c i target fname args)
  from "4.prems" obtain c1 where a: "checkArgs X c args = Inr c1"
    by (auto split: sum.splits)
  have f1: "framed (concat (map ids args)) c c1" using "4.IH"(1) a by simp
  show ?case
  proof (cases target)
    case None
    then obtain c2 r where
      n: "resolveNamed X c1 i None fname args = (c2, r)"
      and s: "setResolution c2 i r = Inr c'"
      using "4.prems" a by (auto split: prod.splits)
    have "framed (concat (map ids args) @ [i]) c c'"
      using framed_trans [OF framed_steady_right [OF f1 steady_resolveNamed [OF n]]
          framed_setResolution [OF s]] .
    then show ?thesis by (rule framed_mono) auto
  next
    case (Some t)
    obtain c2 r where rs: "resolveStatic X c1 i t fname args = (c2, r)"
      by (cases "resolveStatic X c1 i t fname args")
    have f2: "framed (concat (map ids args)) c c2"
      using framed_steady_right [OF f1 steady_resolveStatic [OF rs]] .
    show ?thesis
    proof (cases r)
      case (Some res)
      then have s: "setResolution c2 i (Some res) = Inr c'"
        using "4.prems" a \<open>target = Some t\<close> rs by simp
      have "framed (concat (map ids args) @ [i]) c c'"
        using framed_trans [OF f2 framed_setResolution [OF s]] .
      then show ?thesis by (rule framed_mono) auto
    next
      case None
      then obtain c3 c4 r4 where
        t: "check X c2 t = Inr c3"
        and n: "resolveNamed X c3 i (Some t) fname args = (c4, r4)"
        and s: "setResolution c4 i r4 = Inr c'"
        using "4.prems" a \<open>target = Some t\<close> rs by (auto split: sum.splits prod.splits)
      have "framed (ids t) c2 c3"
        using "4.IH"(2) [OF a \<open>target = Some t\<close> rs [symmetric] None t] .
      then have "framed (ids t) c2 c4"
        using steady_resolveNamed [OF n] by (rule framed_steady_right)
      then have "framed ((concat (map ids args) @ ids t) @ [i]) c c'"
        using f2 framed_setResolution [OF s] by (blast intro: framed_trans)
      then show ?thesis by (rule framed_mono) (auto simp: \<open>target = Some t\<close>)
    qed
  qed
next
  case (5 X c i elements)
  from "5.prems" obtain c1 t1 c2 t2 where
    e: "checkElements X c NilType elements = Inr (c1, t1)"
    and v: "(if t1 = NilType then newTypeVar c1 else (c1, t1)) = (c2, t2)"
    and s: "setType c2 i (NewList t2) = Inr c'"
    by (auto split: sum.splits prod.splits)
  have "steady c1 c2" using v by (auto split: if_splits dest: steady_newTypeVar)
  then have "framed (concat (map ids elements)) c c2"
    using "5.IH" [OF e] by (blast intro: framed_steady_right)
  then have "framed (concat (map ids elements) @ [i]) c c'"
    using framed_setType [OF s] by (rule framed_trans)
  then show ?case by (rule framed_mono) auto
next
  case (6 X c i messageName entries)
  show ?case
  proof (cases "messageName \<noteq> []")
    case True
    show ?thesis
    proof (cases "LookupIdent (env c) (container c) messageName")
      case None
      then have "c' = report c (undeclaredReference (location c i) (container c) messageName)"
        using "6.prems" True by simp
      then show ?thesis by (auto intro: framed_mono [OF framed_steady [OF steady_report]])
    next
      case (Some decl)
      then obtain c1 c2 mt c3 where
        r: "setReference c i (Some (newIdentReference (ident_Name decl) None)) = Inr c1"
        and m: "messageTypeOf c1 i decl = (c2, mt)"
        and s: "setType c2 i mt = Inr c3"
        and f: "checkFieldInitializers X c3 mt entries = Inr c'"
        using "6.prems" True by (auto split: sum.splits prod.splits)
      have "framed (concat (map entryIds entries)) c3 c'"
        using "6.IH"(1) [OF True Some r m [symmetric] s f] .
      moreover have "framed ([i] @ [i]) c c3"
        using framed_trans [OF framed_steady_right [OF framed_setReference [OF r]
              steady_messageTypeOf [OF m]] framed_setType [OF s]] .
      ultimately have "framed (([i] @ [i]) @ concat (map entryIds entries)) c c'"
        by (blast intro: framed_trans)
      then show ?thesis by (rule framed_mono) auto
    qed
  next
    case False
    then obtain c1 kt vt where
      e: "checkMapEntries X c NilType NilType entries = Inr (c1, kt, vt)"
      using "6.prems" by (auto split: sum.splits)
    have f1: "framed (concat (map entryIds entries)) c c1"
      using "6.IH"(2) [OF False e] .
    have "\<exists>c2 t. steady c1 c2 \<and> setType c2 i t = Inr c'"
    proof (cases "kt = NilType")
      case True
      obtain c2 k' where n1: "newTypeVar c1 = (c2, k')" by (cases "newTypeVar c1")
      obtain c3 v' where n2: "newTypeVar c2 = (c3, v')" by (cases "newTypeVar c2")
      have "setType c3 i (NewMap k' v') = Inr c'"
        using "6.prems" False e True n1 n2 by simp
      moreover have "steady c1 c3"
        using steady_trans [OF steady_newTypeVar [OF n1] steady_newTypeVar [OF n2]] .
      ultimately show ?thesis by blast
    next
      case kt: False
      then have "setType c1 i (NewMap kt vt) = Inr c'"
        using "6.prems" False e by simp
      then show ?thesis using steady_refl by blast
    qed
    then obtain c2 t where st: "steady c1 c2" and s: "setType c2 i t = Inr c'" by blast
    have "framed (concat (map entryIds entries) @ [i]) c c'"
      using framed_trans [OF framed_steady_right [OF f1 st] framed_setType [OF s]] .
    then show ?thesis by (rule framed_mono) auto
  qed
next
  case (7 X c i iterVar iterRange accuVar accuInit loopCondition loopStep result)
  from "7.prems" obtain c1 c2 c3 varType c4 c5 c6 where
    r: "check X c iterRange = Inr c1"
    and a: "check X c1 accuInit = Inr c2"
    and v: "iterVarType c2 (Id iterRange) (getType c2 (Id iterRange)) = (c3, varType)"
    and lc: "check X (bindVar (bindVar c3 accuVar (getType c2 (Id accuInit))) iterVar varType)
               loopCondition = Inr c4"
    and ls: "check X (assertType X c4 (Id loopCondition) Bool) loopStep = Inr c5"
    and re: "check X (leaveScope (assertType X c5 (Id loopStep) (getType c2 (Id accuInit))))
               result = Inr c6"
    and s: "setType (leaveScope c6) i (getType (leaveScope c6) (Id result)) = Inr c'"
    by (auto split: sum.splits prod.splits)
  note f1 = "7.IH"(1) [OF r]
  note f2 = "7.IH"(2) [OF r a]
  note f3 = steady_iterVarType [OF v]
  note f4 = "7.IH"(3) [OF r a v [symmetric] lc]
  note f5 = "7.IH"(4) [OF r a v [symmetric] lc ls]
  note f6 = "7.IH"(5) [OF r a v [symmetric] lc ls re]
  note f7 = framed_setType [OF s]
  note g4 = steady_assertType [of c4 X "Id loopCondition" Bool]
  note g5 = steady_assertType [of c5 X "Id loopStep" "getType c2 (Id accuInit)"]
  show ?case
    using f1 f2 f3 f4 f5 f6 f7 g4 g5
    by (simp add: framed_def steady_def)
next
  case (8 X c i)
  then show ?case by simp
next
  case (9 X c)
  then show ?case by simp
next
  case (10 X c arg rest)
  from "10.prems" obtain c1 where a: "check X c arg = Inr c1" and r: "checkArgs X c1 rest = Inr c'"
    by (auto split: sum.splits)
  show ?case
    using framed_trans [OF "10.IH"(1) [OF a] "10.IH"(2) [OF a r]] by simp
next
  case (11 X c elemType)
  then show ?case by simp
next
  case (12 X c elemType e rest)
  from "12.prems" obtain c1 c2 t2 where
    a: "check X c e = Inr c1"
    and j: "joinTypes X c1 (location c1 (Id e)) elemType (getType c1 (Id e)) = (c2, t2)"
    and r: "checkElements X c2 t2 rest = Inr (c', t')"
    by (auto split: sum.splits prod.splits)
  show ?case
    using framed_trans [OF framed_steady_right [OF "12.IH"(1) [OF a] steady_joinTypes [OF j]]
        "12.IH"(2) [OF a j [symmetric] r]] by simp
next
  case (13 X c keyType valueType)
  then show ?case by simp
next
  case (14 X c keyType valueType entId field v rest)
  then show ?case by simp
next
  case (15 X c keyType valueType entId key v rest)
  from "15.prems" obtain c1 c2 kt2 c3 c4 vt4 where
    k: "check X c key = Inr c1"
    and j: "joinTypes X c1 (location c1 (Id key)) keyType (getType c1 (Id key)) = (c2, kt2)"
    and w: "check X c2 v = Inr c3"
    and j2: "joinTypes X c3 (location c3 (Id v)) valueType (getType c3 (Id v)) = (c4, vt4)"
    and r: "checkMapEntries X c4 kt2 vt4 rest = Inr (c', kt', vt')"
    by (auto split: sum.splits prod.splits)
  note f1 = framed_steady_right [OF "15.IH"(1) [OF k] steady_joinTypes [OF j]]
  note f2 = framed_steady_right [OF "15.IH"(2) [OF k j [symmetric] w] steady_joinTypes [OF j2]]
  note f3 = "15.IH"(3) [OF k j [symmetric] w j2 [symmetric] r]
  show ?case
    using framed_trans [OF framed_trans [OF f1 f2] f3] by simp
next
  case (16 X c messageType)
  then show ?case by simp
next
  case (17 X c messageType entId field v rest)
  from "17.prems" obtain c1 where
    a: "check X c v = Inr c1"
    and r: "checkFieldInitializers X (checkFieldType X c1 messageType entId field (Id v))
              messageType rest = Inr c'"
    by (auto split: sum.splits)
  show ?case
    using framed_trans [OF framed_steady_right [OF "17.IH"(1) [OF a] steady_checkFieldType]
        "17.IH"(2) [OF a r]] by simp
next
  case (18 X c messageType entId key v rest)
  from "18.prems" obtain c1 where
    a: "check X c v = Inr c1"
    and r: "checkFieldInitializers X (checkFieldType X c1 messageType entId [] (Id v))
              messageType rest = Inr c'"
    by (auto split: sum.splits)
  have "framed (ids v @ concat (map entryIds rest)) c c'"
    using framed_trans [OF framed_steady_right [OF "18.IH"(1) [OF a] steady_checkFieldType]
        "18.IH"(2) [OF a r]] .
  then show ?case by (rule framed_mono) auto
qed

section \<open>No write meets an entry when the ids are unique\<close>

lemma unwritten_Cons [simp]:
  "unwritten c (j # js) = (types c j = None \<and> references c j = None \<and> unwritten c js)"
  by (simp add: unwritten_def)

lemma unwritten_Nil [simp]: "unwritten c []"
  by (simp add: unwritten_def)

lemma unwritten_append [simp]: "unwritten c (js @ ks) = (unwritten c js \<and> unwritten c ks)"
  by (simp add: unwritten_def)

lemma unwritten_steady: "steady c c' \<Longrightarrow> unwritten c' js = unwritten c js"
  by (simp add: unwritten_def steady_def)

lemma unwritten_framed:
  "framed js c c' \<Longrightarrow> set js \<inter> set ks = {} \<Longrightarrow> unwritten c ks \<Longrightarrow> unwritten c' ks"
  by (auto simp: unwritten_def framed_def list_all_iff)

lemma unwritten_bindVar [simp]: "unwritten (bindVar c n t) js = unwritten c js"
  by (simp add: unwritten_def)

lemma unwritten_leaveScope [simp]: "unwritten (leaveScope c) js = unwritten c js"
  by (simp add: unwritten_def)

lemma setReference_first:
  "references c i = None \<Longrightarrow>
   setReference c i r = Inr (c\<lparr>references := (references c)(i \<mapsto> r)\<rparr>)"
  by (simp add: setReference_def)

lemma setResolution_first:
  "types c i = None \<Longrightarrow> references c i = None \<Longrightarrow> \<exists>c'. setResolution c i r = Inr c'"
  by (cases r) (simp_all add: setResolution_def setType_first setReference_first)

lemma checkIdent_first:
  "types c i = None \<Longrightarrow> references c i = None \<Longrightarrow> \<exists>c'. checkIdent c i n = Inr c'"
  by (cases "LookupIdent (env c) (container c) n")
     (simp_all add: checkIdent_def setType_first setReference_first)

lemma unwritten_at: "steady c c' \<Longrightarrow> types c i = None \<Longrightarrow> types c' i = None"
  "steady c c' \<Longrightarrow> references c i = None \<Longrightarrow> references c' i = None"
  by (simp_all add: steady_def)

lemma framed_at:
  "framed js c c' \<Longrightarrow> i \<notin> set js \<Longrightarrow> types c i = None \<Longrightarrow> types c' i = None"
  "framed js c c' \<Longrightarrow> i \<notin> set js \<Longrightarrow> references c i = None \<Longrightarrow> references c' i = None"
  by (simp_all add: framed_def)

lemma distinct_five:
  assumes "distinct (i # a @ b @ c @ d @ e)"
  shows "distinct a" "distinct b" "distinct c" "distinct d" "distinct (e :: 'a list)"
    and "i \<notin> set a" "i \<notin> set b" "i \<notin> set c" "i \<notin> set d" "i \<notin> set e"
    and "set a \<inter> set b = {}" "set a \<inter> set c = {}" "set a \<inter> set d = {}" "set a \<inter> set e = {}"
      "set b \<inter> set c = {}" "set b \<inter> set d = {}" "set b \<inter> set e = {}"
      "set c \<inter> set d = {}" "set c \<inter> set e = {}" "set d \<inter> set e = {}"
  using assms by (simp_all add: Int_Un_distrib Int_Un_distrib2)

lemma check_panic:
  "check X c e = Inl p \<Longrightarrow> distinct (ids e) \<Longrightarrow> unwritten c (ids e) \<Longrightarrow> \<not> internalError p"
  and checkArgs_panic: "checkArgs X c args = Inl p \<Longrightarrow> distinct (concat (map ids args)) \<Longrightarrow>
         unwritten c (concat (map ids args)) \<Longrightarrow> \<not> internalError p"
  and checkElements_panic: "checkElements X c t es = Inl p \<Longrightarrow> distinct (concat (map ids es)) \<Longrightarrow>
         unwritten c (concat (map ids es)) \<Longrightarrow> \<not> internalError p"
  and checkMapEntries_panic: "checkMapEntries X c kt vt ents = Inl p \<Longrightarrow> distinct (concat (map entryIds ents)) \<Longrightarrow>
         unwritten c (concat (map entryIds ents)) \<Longrightarrow> \<not> internalError p"
  and checkFieldInitializers_panic: "checkFieldInitializers X c mt ents = Inl p \<Longrightarrow> distinct (concat (map entryIds ents)) \<Longrightarrow>
         unwritten c (concat (map entryIds ents)) \<Longrightarrow> \<not> internalError p"
proof (induction X c e and X c args and X c t es and X c kt vt ents and X c mt ents
    arbitrary: p and p and p and p and p
    rule: check_checkArgs_checkElements_checkMapEntries_checkFieldInitializers.induct)
  case (1 X c i k)
  then show ?case by (cases k) (simp_all add: setType_first)
next
  case (2 X c i name)
  then show ?case using checkIdent_first [of c i name] by auto
next
  case (3 X c i operand field testOnly)
  have fresh: "types c i = None" "references c i = None"
    and d: "distinct (ids operand)" "i \<notin> set (ids operand)"
    and u: "unwritten c (ids operand)"
    using "3.prems"(2,3) by simp_all
  show ?case
  proof (cases "selectAsIdent (env c) (container c) (SelectExpr i operand field testOnly)")
    case (Some ident)
    then show ?thesis
      using "3.prems"(1) fresh by (simp add: setType_first setReference_first split: if_splits)
  next
    case None
    show ?thesis
    proof (cases "check X c operand")
      case (Inl q)
      then have "p = q" using "3.prems"(1) None by simp
      then show ?thesis using "3.IH" [OF None Inl d(1) u] by simp
    next
      case (Inr c1)
      obtain c2 rt where s: "selectField c1 i (getType c1 (Id operand)) field testOnly = (c2, rt)"
        by (cases "selectField c1 i (getType c1 (Id operand)) field testOnly")
      have "types c2 i = None"
        using unwritten_at(1) [OF steady_selectField [OF s]
            framed_at(1) [OF check_framed [OF Inr] d(2) fresh(1)]] .
      then show ?thesis using "3.prems"(1) None Inr s by (simp add: setType_first)
    qed
  qed
next
  case (4 X c i target fname args)
  have fresh: "types c i = None" "references c i = None"
    and da: "distinct (concat (map ids args))" "i \<notin> set (concat (map ids args))"
    and ua: "unwritten c (concat (map ids args))"
    using "4.prems"(2,3) by (simp_all split: option.splits)
  show ?case
  proof (cases "checkArgs X c args")
    case (Inl q)
    then have "p = q" using "4.prems"(1) by simp
    then show ?thesis using "4.IH"(1) [OF Inl da(1) ua] by simp
  next
    case (Inr c1)
    note f1 = checkArgs_framed [OF Inr]
    have fresh1: "types c1 i = None" "references c1 i = None"
      using framed_at [OF f1 da(2)] fresh by simp_all
    show ?thesis
    proof (cases target)
      case None
      obtain c2 r where n: "resolveNamed X c1 i None fname args = (c2, r)"
        by (cases "resolveNamed X c1 i None fname args")
      have "\<exists>c'. setResolution c2 i r = Inr c'"
        using setResolution_first unwritten_at [OF steady_resolveNamed [OF n]] fresh1 by blast
      then show ?thesis using "4.prems"(1) Inr None n by auto
    next
      case (Some t)
      have dt: "distinct (ids t)" "i \<notin> set (ids t)"
        "set (concat (map ids args)) \<inter> set (ids t) = {}"
        and ut: "unwritten c (ids t)"
        using "4.prems"(2,3) Some by (simp_all add: Int_commute)
      obtain c2 r where rs: "resolveStatic X c1 i t fname args = (c2, r)"
        by (cases "resolveStatic X c1 i t fname args")
      note s2 = steady_resolveStatic [OF rs]
      have fresh2: "types c2 i = None" "references c2 i = None"
        using unwritten_at [OF s2] fresh1 by simp_all
      show ?thesis
      proof (cases r)
        case (Some res)
        have "\<exists>c'. setResolution c2 i (Some res) = Inr c'"
          using setResolution_first fresh2 by blast
        then show ?thesis using "4.prems"(1) Inr \<open>target = Some t\<close> rs Some by auto
      next
        case None
        have u2: "unwritten c2 (ids t)"
          using unwritten_framed [OF f1 dt(3) ut] unwritten_steady [OF s2] by simp
        show ?thesis
        proof (cases "check X c2 t")
          case (Inl q)
          then have "p = q" using "4.prems"(1) Inr \<open>target = Some t\<close> rs None by simp
          then show ?thesis
            using "4.IH"(2) [OF Inr \<open>target = Some t\<close> rs [symmetric] None Inl dt(1) u2] by simp
        next
          case c3: (Inr c3)
          obtain c4 r4 where n: "resolveNamed X c3 i (Some t) fname args = (c4, r4)"
            by (cases "resolveNamed X c3 i (Some t) fname args")
          have "types c3 i = None" "references c3 i = None"
            using framed_at [OF check_framed [OF c3] dt(2)] fresh2 by simp_all
          then have "\<exists>c'. setResolution c4 i r4 = Inr c'"
            using setResolution_first unwritten_at [OF steady_resolveNamed [OF n]] by blast
          then show ?thesis
            using "4.prems"(1) Inr \<open>target = Some t\<close> rs None c3 n by auto
        qed
      qed
    qed
  qed
next
  case (5 X c i elements)
  have fresh: "types c i = None"
    and d: "distinct (concat (map ids elements))" "i \<notin> set (concat (map ids elements))"
    and u: "unwritten c (concat (map ids elements))"
    using "5.prems"(2,3) by simp_all
  show ?case
  proof (cases "checkElements X c NilType elements")
    case (Inl q)
    then have "p = q" using "5.prems"(1) by simp
    then show ?thesis using "5.IH" [OF Inl d(1) u] by simp
  next
    case (Inr r)
    obtain c1 t1 where r: "r = (c1, t1)" by (cases r)
    obtain c2 t2 where v: "(if t1 = NilType then newTypeVar c1 else (c1, t1)) = (c2, t2)"
      by (cases "if t1 = NilType then newTypeVar c1 else (c1, t1)")
    have "steady c1 c2" using v by (auto split: if_splits dest: steady_newTypeVar)
    then have "types c2 i = None"
      using framed_at(1) [OF checkElements_framed [OF Inr [unfolded r]] d(2) fresh]
      by (simp add: steady_def)
    then show ?thesis using "5.prems"(1) Inr r v by (simp add: setType_first)
  qed
next
  case (6 X c i messageName entries)
  have fresh: "types c i = None" "references c i = None"
    and d: "distinct (concat (map entryIds entries))" "i \<notin> set (concat (map entryIds entries))"
    and u: "unwritten c (concat (map entryIds entries))"
    using "6.prems"(2,3) by simp_all
  show ?case
  proof (cases "messageName \<noteq> []")
    case True
    show ?thesis
    proof (cases "LookupIdent (env c) (container c) messageName")
      case None
      then show ?thesis using "6.prems"(1) True by simp
    next
      case (Some decl)
      let ?c1 = "c\<lparr>references := (references c)(i \<mapsto> Some (newIdentReference (ident_Name decl) None))\<rparr>"
      have r: "setReference c i (Some (newIdentReference (ident_Name decl) None)) = Inr ?c1"
        using fresh by (simp add: setReference_first)
      obtain c2 mt where m: "messageTypeOf ?c1 i decl = (c2, mt)"
        by (cases "messageTypeOf ?c1 i decl")
      have t2: "types c2 i = None"
        using steady_messageTypeOf [OF m] fresh by (simp add: steady_def)
      let ?c3 = "c2\<lparr>types := (types c2)(i \<mapsto> mt)\<rparr>"
      have s: "setType c2 i mt = Inr ?c3" using t2 by (simp add: setType_first)
      have f: "checkFieldInitializers X ?c3 mt entries = Inl p"
        using "6.prems"(1) True Some r m s by simp
      have f3: "framed ([i] @ [i]) c ?c3"
        using framed_trans [OF framed_steady_right [OF framed_setReference [OF r]
              steady_messageTypeOf [OF m]] framed_setType [OF s]] .
      have "unwritten ?c3 (concat (map entryIds entries))"
        by (rule unwritten_framed [OF f3 _ u]) (insert d(2), simp)
      then show ?thesis
        using "6.IH"(1) [OF True Some r m [symmetric] s f d(1)] by simp
    qed
  next
    case False
    show ?thesis
    proof (cases "checkMapEntries X c NilType NilType entries")
      case (Inl q)
      then have "p = q" using "6.prems"(1) False by simp
      then show ?thesis using "6.IH"(2) [OF False Inl d(1) u] by simp
    next
      case (Inr r)
      obtain c1 kt vt where r: "r = (c1, kt, vt)" by (cases r)
      have t1: "types c1 i = None"
        using framed_at(1) [OF checkMapEntries_framed [OF Inr [unfolded r]] d(2) fresh(1)] .
      obtain c2 k' where n1: "newTypeVar c1 = (c2, k')" by (cases "newTypeVar c1")
      obtain c3 v' where n2: "newTypeVar c2 = (c3, v')" by (cases "newTypeVar c2")
      have "types c3 i = None"
        using steady_trans [OF steady_newTypeVar [OF n1] steady_newTypeVar [OF n2]] t1
        by (simp add: steady_def)
      then show ?thesis
        using "6.prems"(1) False Inr r n1 n2 t1 by (simp add: setType_first split: if_splits)
    qed
  qed
next
  case (7 X c i iterVar iterRange accuVar accuInit loopCondition loopStep result)
  have dd: "distinct (i # ids iterRange @ ids accuInit @ ids loopCondition @ ids loopStep @
                      ids result)"
    using "7.prems"(2) by simp
  note d = distinct_five(1-5) [OF dd]
  note n = distinct_five(6-10) [OF dd]
  note x = distinct_five(11-20) [OF dd]
  have fresh: "types c i = None"
    and u: "unwritten c (ids iterRange)" "unwritten c (ids accuInit)"
      "unwritten c (ids loopCondition)" "unwritten c (ids loopStep)" "unwritten c (ids result)"
    using "7.prems"(3) by simp_all
  show ?case
  proof (cases "check X c iterRange")
    case (Inl q)
    then have "p = q" using "7.prems"(1) by simp
    then show ?thesis using "7.IH"(1) [OF Inl d(1) u(1)] by simp
  next
    case r: (Inr c1)
    note f1 = check_framed [OF r]
    show ?thesis
    proof (cases "check X c1 accuInit")
      case (Inl q)
      then have "p = q" using "7.prems"(1) r by simp
      then show ?thesis
        using "7.IH"(2) [OF r Inl d(2) unwritten_framed [OF f1 x(1) u(2)]] by simp
    next
      case a: (Inr c2)
      note f2 = framed_trans [OF f1 check_framed [OF a]]
      obtain c3 varType where
        v: "iterVarType c2 (Id iterRange) (getType c2 (Id iterRange)) = (c3, varType)"
        by (cases "iterVarType c2 (Id iterRange) (getType c2 (Id iterRange))")
      note f3 = framed_steady_right [OF f2 steady_iterVarType [OF v]]
      let ?inner = "bindVar (bindVar c3 accuVar (getType c2 (Id accuInit))) iterVar varType"
      have u3: "unwritten c3 (ids loopCondition)" "unwritten c3 (ids loopStep)"
        "unwritten c3 (ids result)" "types c3 i = None"
      proof -
        show "unwritten c3 (ids loopCondition)"
          by (rule unwritten_framed [OF f3 _ u(3)]) (simp add: Int_Un_distrib2 x)
        show "unwritten c3 (ids loopStep)"
          by (rule unwritten_framed [OF f3 _ u(4)]) (simp add: Int_Un_distrib2 x)
        show "unwritten c3 (ids result)"
          by (rule unwritten_framed [OF f3 _ u(5)]) (simp add: Int_Un_distrib2 x)
        show "types c3 i = None"
          by (rule framed_at(1) [OF f3 _ fresh]) (simp add: n)
      qed
      show ?thesis
      proof (cases "check X ?inner loopCondition")
        case (Inl q)
        then have "p = q" using "7.prems"(1) r a v by simp
        then show ?thesis
          using "7.IH"(3) [OF r a v [symmetric] Inl d(3)] u3(1) by simp
      next
        case lc: (Inr c4)
        note f4 = check_framed [OF lc]
        let ?c4 = "assertType X c4 (Id loopCondition) Bool"
        have u4: "unwritten ?c4 (ids loopStep)" "unwritten ?c4 (ids result)" "types ?c4 i = None"
          using unwritten_framed [OF f4 x(8)] unwritten_framed [OF f4 x(9)] u3
            framed_at(1) [OF f4 n(3)]
            unwritten_steady [OF steady_assertType [of c4 X "Id loopCondition" Bool]]
            unwritten_at(1) [OF steady_assertType [of c4 X "Id loopCondition" Bool]]
          by simp_all
        show ?thesis
        proof (cases "check X ?c4 loopStep")
          case (Inl q)
          then have "p = q" using "7.prems"(1) r a v lc by simp
          then show ?thesis
            using "7.IH"(4) [OF r a v [symmetric] lc Inl d(4) u4(1)] by simp
        next
          case ls: (Inr c5)
          note f5 = check_framed [OF ls]
          let ?c5 = "leaveScope (assertType X c5 (Id loopStep) (getType c2 (Id accuInit)))"
          note st5 = steady_assertType [of c5 X "Id loopStep" "getType c2 (Id accuInit)"]
          have u5: "unwritten ?c5 (ids result)" "types ?c5 i = None"
            using unwritten_framed [OF f5 x(10) u4(2)] framed_at(1) [OF f5 n(4) u4(3)]
              unwritten_steady [OF st5] unwritten_at(1) [OF st5]
            by simp_all
          show ?thesis
          proof (cases "check X ?c5 result")
            case (Inl q)
            then have "p = q" using "7.prems"(1) r a v lc ls by simp
            then show ?thesis
              using "7.IH"(5) [OF r a v [symmetric] lc ls Inl d(5) u5(1)] by simp
          next
            case re: (Inr c6)
            have "types (leaveScope c6) i = None"
              using framed_at(1) [OF check_framed [OF re] n(5) u5(2)] by simp
            then show ?thesis
              using "7.prems"(1) r a v lc ls re by (simp add: setType_first)
          qed
        qed
      qed
    qed
  qed
next
  case (8 X c i)
  then show ?case by simp
next
  case (9 X c)
  then show ?case by simp
next
  case (10 X c arg rest)
  show ?case
  proof (cases "check X c arg")
    case (Inl q)
    then have "p = q" using "10.prems"(1) by simp
    then show ?thesis using "10.IH"(1) [OF Inl] "10.prems"(2,3) by simp
  next
    case (Inr c1)
    then have "checkArgs X c1 rest = Inl p" using "10.prems"(1) by simp
    moreover have "unwritten c1 (concat (map ids rest))"
      using "10.prems" by (intro unwritten_framed [OF check_framed [OF Inr]]) auto
    ultimately show ?thesis using "10.IH"(2) [OF Inr] "10.prems"(2) by simp
  qed
next
  case (11 X c elemType)
  then show ?case by simp
next
  case (12 X c elemType e rest)
  show ?case
  proof (cases "check X c e")
    case (Inl q)
    then have "p = q" using "12.prems"(1) by simp
    then show ?thesis using "12.IH"(1) [OF Inl] "12.prems"(2,3) by simp
  next
    case (Inr c1)
    obtain c2 t2 where
      j: "joinTypes X c1 (location c1 (Id e)) elemType (getType c1 (Id e)) = (c2, t2)"
      by (cases "joinTypes X c1 (location c1 (Id e)) elemType (getType c1 (Id e))")
    have "checkElements X c2 t2 rest = Inl p" using "12.prems"(1) Inr j by simp
    moreover have "unwritten c2 (concat (map ids rest))"
      using "12.prems"(2,3)
      by (intro unwritten_framed [OF framed_steady_right [OF check_framed [OF Inr]
              steady_joinTypes [OF j]]]) auto
    ultimately show ?thesis using "12.IH"(2) [OF Inr j [symmetric]] "12.prems"(2) by simp
  qed
next
  case (13 X c keyType valueType)
  then show ?case by simp
next
  case (14 X c keyType valueType entId field v rest)
  then show ?case by simp
next
  case (15 X c keyType valueType entId key v rest)
  have d: "distinct (ids key)" "distinct (ids v)" "distinct (concat (map entryIds rest))"
    and x: "set (ids key) \<inter> set (ids v) = {}"
      "set (ids key) \<inter> set (concat (map entryIds rest)) = {}"
      "set (ids v) \<inter> set (concat (map entryIds rest)) = {}"
    and u: "unwritten c (ids key)" "unwritten c (ids v)" "unwritten c (concat (map entryIds rest))"
    using "15.prems"(2,3) by (simp_all add: Int_Un_distrib Int_Un_distrib2)
  show ?case
  proof (cases "check X c key")
    case (Inl q)
    then have "p = q" using "15.prems"(1) by simp
    then show ?thesis using "15.IH"(1) [OF Inl d(1) u(1)] by simp
  next
    case k: (Inr c1)
    obtain c2 kt2 where
      j: "joinTypes X c1 (location c1 (Id key)) keyType (getType c1 (Id key)) = (c2, kt2)"
      by (cases "joinTypes X c1 (location c1 (Id key)) keyType (getType c1 (Id key))")
    note f1 = framed_steady_right [OF check_framed [OF k] steady_joinTypes [OF j]]
    show ?thesis
    proof (cases "check X c2 v")
      case (Inl q)
      then have "p = q" using "15.prems"(1) k j by simp
      then show ?thesis
        using "15.IH"(2) [OF k j [symmetric] Inl d(2) unwritten_framed [OF f1 x(1) u(2)]] by simp
    next
      case w: (Inr c3)
      obtain c4 vt4 where
        j2: "joinTypes X c3 (location c3 (Id v)) valueType (getType c3 (Id v)) = (c4, vt4)"
        by (cases "joinTypes X c3 (location c3 (Id v)) valueType (getType c3 (Id v))")
      note f2 = framed_steady_right [OF check_framed [OF w] steady_joinTypes [OF j2]]
      have "checkMapEntries X c4 kt2 vt4 rest = Inl p" using "15.prems"(1) k j w j2 by simp
      moreover have "unwritten c4 (concat (map entryIds rest))"
        using unwritten_framed [OF f2 x(3) unwritten_framed [OF f1 x(2) u(3)]] .
      ultimately show ?thesis
        using "15.IH"(3) [OF k j [symmetric] w j2 [symmetric]] d(3) by simp
    qed
  qed
next
  case (16 X c messageType)
  then show ?case by simp
next
  case (17 X c messageType entId field v rest)
  show ?case
  proof (cases "check X c v")
    case (Inl q)
    then have "p = q" using "17.prems"(1) by simp
    then show ?thesis using "17.IH"(1) [OF Inl] "17.prems"(2,3) by simp
  next
    case (Inr c1)
    let ?c2 = "checkFieldType X c1 messageType entId field (Id v)"
    have "checkFieldInitializers X ?c2 messageType rest = Inl p"
      using "17.prems"(1) Inr by simp
    moreover have "unwritten ?c2 (concat (map entryIds rest))"
      using "17.prems"(2,3)
      by (intro unwritten_framed [OF framed_steady_right [OF check_framed [OF Inr]
              steady_checkFieldType]]) auto
    ultimately show ?thesis using "17.IH"(2) [OF Inr] "17.prems"(2) by simp
  qed
next
  case (18 X c messageType entId key v rest)
  show ?case
  proof (cases "check X c v")
    case (Inl q)
    then have "p = q" using "18.prems"(1) by simp
    then show ?thesis using "18.IH"(1) [OF Inl] "18.prems"(2,3) by simp
  next
    case (Inr c1)
    let ?c2 = "checkFieldType X c1 messageType entId [] (Id v)"
    have "checkFieldInitializers X ?c2 messageType rest = Inl p"
      using "18.prems"(1) Inr by simp
    moreover have "unwritten ?c2 (concat (map entryIds rest))"
      using "18.prems"(2,3)
      by (intro unwritten_framed [OF framed_steady_right [OF check_framed [OF Inr]
              steady_checkFieldType]]) auto
    ultimately show ?thesis using "18.IH"(2) [OF Inr] "18.prems"(2) by simp
  qed
qed

section \<open>A fully walked expression is typed at every node\<close>

lemma firstHit_None: "firstHit f xs = None \<longleftrightarrow> (\<forall>x \<in> set xs. f x = None)"
  by (induction xs) (auto split: option.splits)

lemma FindIdent_None:
  "FindIdent ds name = None \<longleftrightarrow> (\<forall>s \<in> set ds. name \<notin> set (map ident_Name (scope_idents s)))"
  by (auto simp: FindIdent_def firstHit_None find_None_iff)

lemma FindFunction_None:
  "FindFunction ds name = None \<longleftrightarrow>
     (\<forall>s \<in> set ds. name \<notin> set (map fn_Name (scope_functions s)))"
  by (auto simp: FindFunction_def firstHit_None find_None_iff)

lemma LookupIdent_None:
  "LookupIdent E cont name = None \<longleftrightarrow>
     (\<forall>cand \<in> set (qualifiedNameCandidates cont name).
        \<forall>ns \<in> set (declNames E). cand \<notin> set (fst ns))"
  by (auto simp: LookupIdent_def firstHit_None FindIdent_None declNames_def)

lemma LookupFunction_None:
  "LookupFunction E cont name = None \<longleftrightarrow>
     (\<forall>cand \<in> set (qualifiedNameCandidates cont name).
        \<forall>ns \<in> set (declNames E). cand \<notin> set (snd ns))"
  by (auto simp: LookupFunction_def firstHit_None FindFunction_None declNames_def)

lemma LookupIdent_names:
  "declNames E = declNames E' \<Longrightarrow>
   (LookupIdent E cont name = None) = (LookupIdent E' cont name = None)"
  by (simp add: LookupIdent_None)

lemma selectAsIdent_names:
  "declNames E = declNames E' \<Longrightarrow>
   (selectAsIdent E cont e = None) = (selectAsIdent E' cont e = None)"
  by (cases "asQualifiedName e") (simp_all add: selectAsIdent_def LookupIdent_None)

lemma staticFunction_names:
  "declNames E = declNames E' \<Longrightarrow>
   (staticFunction E cont t f = None) = (staticFunction E' cont t f = None)"
  by (cases "asQualifiedName t") (simp_all add: staticFunction_def LookupFunction_None)

lemma declNames_scope:
  "declNames (Add (enterScope E) (NewIdent n t v)) = ([n], []) # declNames E"
  by (simp add: declNames_def Add_def enterScope_def NewIdent_def)

lemma declNames_bindVar [simp]:
  "declNames (env (bindVar c n t)) = ([n], []) # declNames (env c)"
  by (simp add: declNames_def NewIdent_def)

lemma declNames_leaveScope [simp]:
  "declNames (env (leaveScope c)) = tl (declNames (env c))"
  by (simp add: declNames_def map_tl)

lemma declNames_framed: "framed js c c' \<Longrightarrow> declNames (env c') = declNames (env c)"
  by (simp add: framed_def declNames_def)

lemma declNames_steady: "steady c c' \<Longrightarrow> declNames (env c') = declNames (env c)"
  by (simp add: steady_def declNames_def)

lemma container_framed: "framed js c c' \<Longrightarrow> container c' = container c"
  by (simp add: framed_def)

lemma container_steady: "steady c c' \<Longrightarrow> container c' = container c"
  by (simp add: steady_def)

lemma typed_Nil [simp]: "typed c []"
  by (simp add: typed_def)

lemma typed_Cons [simp]: "typed c (j # js) = (types c j \<noteq> None \<and> typed c js)"
  by (simp add: typed_def)

lemma typed_append [simp]: "typed c (js @ ks) = (typed c js \<and> typed c ks)"
  by (simp add: typed_def)

lemma typed_steady: "steady c c' \<Longrightarrow> typed c' js = typed c js"
  by (simp add: typed_def steady_def)

lemma typed_framed:
  "framed js c c' \<Longrightarrow> set js \<inter> set ks = {} \<Longrightarrow> typed c ks \<Longrightarrow> typed c' ks"
  by (auto simp: typed_def framed_def list_all_iff)

lemma typed_bindVar [simp]: "typed (bindVar c n t) js = typed c js"
  by (simp add: typed_def)

lemma typed_leaveScope [simp]: "typed (leaveScope c) js = typed c js"
  by (simp add: typed_def)

lemma typed_setType:
  "setType c i t = Inr c' \<Longrightarrow> types c' i \<noteq> None \<and> (typed c js \<longrightarrow> typed c' js)"
  by (auto simp: typed_def list_all_iff dest!: setType_Inr)

lemma typed_setReference: "setReference c i r = Inr c' \<Longrightarrow> typed c' js = typed c js"
  by (auto simp: typed_def dest!: setReference_Inr)

lemma setResolution_typed:
  assumes "types c i = None" "references c i = None"
  shows "\<exists>c'. setResolution c i r = Inr c' \<and> types c' i \<noteq> None \<and>
              (\<forall>js. typed c js \<longrightarrow> typed c' js)"
proof (cases r)
  case None
  then show ?thesis
    using assms typed_setType [of c i Error] by (auto simp: setResolution_def setType_first)
next
  case (Some res)
  let ?c1 = "c\<lparr>types := (types c)(i \<mapsto> res_Type res)\<rparr>"
  have s: "setType c i (res_Type res) = Inr ?c1" using assms by (simp add: setType_first)
  have "setReference ?c1 i (res_Reference res) =
          Inr (?c1\<lparr>references := (references ?c1)(i \<mapsto> res_Reference res)\<rparr>)"
    using assms by (simp add: setReference_first)
  then show ?thesis
    using Some s typed_setType [OF s] by (auto simp: setResolution_def typed_def)
qed

lemma checkIdent_typed:
  assumes "types c i = None" "references c i = None"
  shows "\<exists>c'. checkIdent c i n = Inr c' \<and> types c' i \<noteq> None"
  using assms
  by (cases "LookupIdent (env c) (container c) n")
     (auto simp: checkIdent_def setType_first setReference_first)

lemma typed_framed_before:
  "framed js c c' \<Longrightarrow> set ks \<inter> set js = {} \<Longrightarrow> typed c ks \<Longrightarrow> typed c' ks"
  by (auto simp: typed_def framed_def list_all_iff)

lemma check_typed:
  "distinct (ids e) \<Longrightarrow> unwritten c (ids e) \<Longrightarrow> declNames E = declNames (env c) \<Longrightarrow>
     walked E (container c) e \<Longrightarrow> \<exists>c'. check X c e = Inr c' \<and> typed c' (ids e)"
  and checkArgs_typed:
    "distinct (concat (map ids args)) \<Longrightarrow> unwritten c (concat (map ids args)) \<Longrightarrow>
       declNames E = declNames (env c) \<Longrightarrow> list_all (walked E (container c)) args \<Longrightarrow>
       \<exists>c'. checkArgs X c args = Inr c' \<and> typed c' (concat (map ids args))"
  and checkElements_typed:
    "distinct (concat (map ids es)) \<Longrightarrow> unwritten c (concat (map ids es)) \<Longrightarrow>
       declNames E = declNames (env c) \<Longrightarrow> list_all (walked E (container c)) es \<Longrightarrow>
       \<exists>c' t'. checkElements X c t es = Inr (c', t') \<and> typed c' (concat (map ids es))"
  and checkMapEntries_typed:
    "distinct (concat (map entryIds ents)) \<Longrightarrow> unwritten c (concat (map entryIds ents)) \<Longrightarrow>
       declNames E = declNames (env c) \<Longrightarrow> list_all (walkedMapEntry E (container c)) ents \<Longrightarrow>
       \<exists>c' kt' vt'. checkMapEntries X c kt vt ents = Inr (c', kt', vt') \<and>
          typed c' (concat (map entryIds ents))"
  and checkFieldInitializers_typed:
    "distinct (concat (map entryIds ents)) \<Longrightarrow> unwritten c (concat (map entryIds ents)) \<Longrightarrow>
       declNames E = declNames (env c) \<Longrightarrow> list_all (walkedField E (container c)) ents \<Longrightarrow>
       \<exists>c'. checkFieldInitializers X c mt ents = Inr c' \<and>
          typed c' (concat (map entryIds ents))"
proof (induction X c e and X c args and X c t es and X c kt vt ents and X c mt ents
    arbitrary: E and E and E and E and E
    rule: check_checkArgs_checkElements_checkMapEntries_checkFieldInitializers.induct)
  case (1 X c i k)
  then show ?case by (cases k) (simp_all add: setType_first)
next
  case (2 X c i name)
  then show ?case using checkIdent_typed [of c i name] by simp
next
  case (3 X c i operand field testOnly)
  have fresh: "types c i = None"
    and d: "distinct (ids operand)" "i \<notin> set (ids operand)"
    and u: "unwritten c (ids operand)"
    using "3.prems"(1,2) by simp_all
  have w: "selectAsIdent E (container c) (SelectExpr i operand field testOnly) = None"
    "walked E (container c) operand"
    using "3.prems"(4) by simp_all
  have None: "selectAsIdent (env c) (container c) (SelectExpr i operand field testOnly) = None"
    using w(1) selectAsIdent_names [OF "3.prems"(3)] by simp
  obtain c1 where o: "check X c operand = Inr c1" and t1: "typed c1 (ids operand)"
    using "3.IH" [OF None d(1) u "3.prems"(3) w(2)] by blast
  obtain c2 rt where s: "selectField c1 i (getType c1 (Id operand)) field testOnly = (c2, rt)"
    by (cases "selectField c1 i (getType c1 (Id operand)) field testOnly")
  note st = steady_selectField [OF s]
  have f2: "types c2 i = None"
    using unwritten_at(1) [OF st framed_at(1) [OF check_framed [OF o] d(2) fresh]] .
  let ?c' = "c2\<lparr>types := (types c2)(i \<mapsto> if testOnly then Bool else rt)\<rparr>"
  have r: "setType c2 i (if testOnly then Bool else rt) = Inr ?c'"
    using f2 by (rule setType_first)
  have "typed ?c' (ids operand)" "types ?c' i \<noteq> None"
    using typed_setType [OF r, of "ids operand"] t1 typed_steady [OF st] by simp_all
  moreover have "check X c (SelectExpr i operand field testOnly) = Inr ?c'"
    using None o s r by simp
  ultimately show ?case by simp
next
  case (4 X c i target fname args)
  have fresh: "types c i = None" "references c i = None"
    and da: "distinct (concat (map ids args))" "i \<notin> set (concat (map ids args))"
    and ua: "unwritten c (concat (map ids args))"
    using "4.prems"(1,2) by (simp_all split: option.splits)
  have wa: "list_all (walked E (container c)) args"
    using "4.prems"(4) by simp
  obtain c1 where a: "checkArgs X c args = Inr c1" and t1: "typed c1 (concat (map ids args))"
    using "4.IH"(1) [OF da(1) ua "4.prems"(3) wa] by blast
  note f1 = checkArgs_framed [OF a]
  have fresh1: "types c1 i = None" "references c1 i = None"
    using framed_at [OF f1 da(2)] fresh by simp_all
  show ?case
  proof (cases target)
    case None
    obtain c2 r where n: "resolveNamed X c1 i None fname args = (c2, r)"
      by (cases "resolveNamed X c1 i None fname args")
    note st = steady_resolveNamed [OF n]
    obtain c' where s: "setResolution c2 i r = Inr c'" and ti: "types c' i \<noteq> None"
      and tk: "\<forall>js. typed c2 js \<longrightarrow> typed c' js"
      using setResolution_typed [OF unwritten_at [OF st] , of i r] fresh1 by blast
    have "typed c' (concat (map ids args))"
      using tk t1 typed_steady [OF st] by simp
    moreover have "check X c (CallExpr i target fname args) = Inr c'"
      using a None n s by simp
    ultimately show ?thesis using ti None by simp
  next
    case (Some t)
    have dt: "distinct (ids t)" "i \<notin> set (ids t)"
      "set (concat (map ids args)) \<inter> set (ids t) = {}"
      and ut: "unwritten c (ids t)"
      using "4.prems"(1,2) Some by (simp_all add: Int_commute)
    have wt: "staticFunction E (container c) t fname = None" "walked E (container c) t"
      using "4.prems"(4) Some by simp_all
    have n1: "declNames E = declNames (env c1)" "container c1 = container c"
      using "4.prems"(3) declNames_framed [OF f1] container_framed [OF f1] by simp_all
    have "staticFunction (env c1) (container c1) t fname = None"
      using wt(1) staticFunction_names [OF n1(1)] n1(2) by simp
    then have rs: "resolveStatic X c1 i t fname args = (c1, None)"
      by (simp add: resolveStatic_def)
    obtain c3 where tc: "check X c1 t = Inr c3" and t3: "typed c3 (ids t)"
      using "4.IH"(2) [OF a Some rs [symmetric] refl dt(1) unwritten_framed [OF f1 dt(3) ut] n1(1)]
        wt(2) n1(2) by auto
    note f3 = check_framed [OF tc]
    obtain c4 r4 where n: "resolveNamed X c3 i (Some t) fname args = (c4, r4)"
      by (cases "resolveNamed X c3 i (Some t) fname args")
    note st = steady_resolveNamed [OF n]
    have fresh3: "types c3 i = None" "references c3 i = None"
      using framed_at [OF f3 dt(2)] fresh1 by simp_all
    obtain c' where s: "setResolution c4 i r4 = Inr c'" and ti: "types c' i \<noteq> None"
      and tk: "\<forall>js. typed c4 js \<longrightarrow> typed c' js"
      using setResolution_typed [OF unwritten_at [OF st], of i r4] fresh3 by blast
    have "typed c3 (concat (map ids args))"
      by (rule typed_framed [OF f3 _ t1]) (insert dt(3), simp add: Int_commute)
    then have "typed c' (concat (map ids args))" "typed c' (ids t)"
      using tk t3 typed_steady [OF st] by simp_all
    moreover have "check X c (CallExpr i target fname args) = Inr c'"
      using a Some rs tc n s by simp
    ultimately show ?thesis using ti Some by simp
  qed
next
  case (5 X c i elements)
  have fresh: "types c i = None"
    and d: "distinct (concat (map ids elements))" "i \<notin> set (concat (map ids elements))"
    and u: "unwritten c (concat (map ids elements))"
    using "5.prems"(1,2) by simp_all
  have w: "list_all (walked E (container c)) elements"
    using "5.prems"(4) by simp
  obtain c1 t1 where e: "checkElements X c NilType elements = Inr (c1, t1)"
    and ty: "typed c1 (concat (map ids elements))"
    using "5.IH" [OF d(1) u "5.prems"(3) w] by blast
  obtain c2 t2 where v: "(if t1 = NilType then newTypeVar c1 else (c1, t1)) = (c2, t2)"
    by (cases "if t1 = NilType then newTypeVar c1 else (c1, t1)")
  have st: "steady c1 c2" using v by (auto split: if_splits dest: steady_newTypeVar)
  have "types c2 i = None"
    using unwritten_at(1) [OF st framed_at(1) [OF checkElements_framed [OF e] d(2) fresh]] .
  then have s: "setType c2 i (NewList t2) = Inr (c2\<lparr>types := (types c2)(i \<mapsto> NewList t2)\<rparr>)"
    by (rule setType_first)
  have "check X c (ListExpr i elements) = Inr (c2\<lparr>types := (types c2)(i \<mapsto> NewList t2)\<rparr>)"
    using e v s by simp
  then show ?case
    using typed_setType [OF s, of "concat (map ids elements)"] ty typed_steady [OF st] by simp
next
  case (6 X c i messageName entries)
  have fresh: "types c i = None" "references c i = None"
    and d: "distinct (concat (map entryIds entries))" "i \<notin> set (concat (map entryIds entries))"
    and u: "unwritten c (concat (map entryIds entries))"
    using "6.prems"(1,2) by simp_all
  show ?case
  proof (cases "messageName \<noteq> []")
    case True
    then have w: "LookupIdent E (container c) messageName \<noteq> None"
      "list_all (walkedField E (container c)) entries"
      using "6.prems"(4) by simp_all
    have "LookupIdent (env c) (container c) messageName \<noteq> None"
      using w(1) LookupIdent_names [OF "6.prems"(3)] by simp
    then obtain decl where Some: "LookupIdent (env c) (container c) messageName = Some decl"
      by blast
    let ?c1 = "c\<lparr>references := (references c)(i \<mapsto> Some (newIdentReference (ident_Name decl) None))\<rparr>"
    have r: "setReference c i (Some (newIdentReference (ident_Name decl) None)) = Inr ?c1"
      using fresh by (simp add: setReference_first)
    obtain c2 mt where m: "messageTypeOf ?c1 i decl = (c2, mt)"
      by (cases "messageTypeOf ?c1 i decl")
    have t2: "types c2 i = None"
      using steady_messageTypeOf [OF m] fresh by (simp add: steady_def)
    let ?c3 = "c2\<lparr>types := (types c2)(i \<mapsto> mt)\<rparr>"
    have s: "setType c2 i mt = Inr ?c3" using t2 by (simp add: setType_first)
    have f3: "framed ([i] @ [i]) c ?c3"
      using framed_trans [OF framed_steady_right [OF framed_setReference [OF r]
            steady_messageTypeOf [OF m]] framed_setType [OF s]] .
    have u3: "unwritten ?c3 (concat (map entryIds entries))"
      by (rule unwritten_framed [OF f3 _ u]) (insert d(2), simp)
    have n3: "declNames E = declNames (env ?c3)" "container ?c3 = container c"
      using "6.prems"(3) declNames_framed [OF f3] container_framed [OF f3] by simp_all
    obtain c' where f: "checkFieldInitializers X ?c3 mt entries = Inr c'"
      and ty: "typed c' (concat (map entryIds entries))"
      using "6.IH"(1) [OF True Some r m [symmetric] s d(1) u3 n3(1)] w(2) n3(2) by auto
    have "types c' i = types ?c3 i"
      using checkFieldInitializers_framed [OF f] d(2) by (simp add: framed_def)
    then have "types c' i \<noteq> None" by simp
    moreover have "check X c (StructExpr i messageName entries) = Inr c'"
      using True Some r m s f by simp
    ultimately show ?thesis using ty by simp
  next
    case False
    then have w: "list_all (walkedMapEntry E (container c)) entries"
      using "6.prems"(4) by simp
    obtain c1 kt vt where e: "checkMapEntries X c NilType NilType entries = Inr (c1, kt, vt)"
      and ty: "typed c1 (concat (map entryIds entries))"
      using "6.IH"(2) [OF False d(1) u "6.prems"(3) w] by blast
    have t1: "types c1 i = None"
      using framed_at(1) [OF checkMapEntries_framed [OF e] d(2) fresh(1)] .
    have "\<exists>c2 t. steady c1 c2 \<and> check X c (StructExpr i messageName entries) = setType c2 i t"
    proof (cases "kt = NilType")
      case True
      obtain c2 k' where n1: "newTypeVar c1 = (c2, k')" by (cases "newTypeVar c1")
      obtain c3 v' where n2: "newTypeVar c2 = (c3, v')" by (cases "newTypeVar c2")
      have "check X c (StructExpr i messageName entries) = setType c3 i (NewMap k' v')"
        using False e True n1 n2 by simp
      moreover have "steady c1 c3"
        using steady_trans [OF steady_newTypeVar [OF n1] steady_newTypeVar [OF n2]] .
      ultimately show ?thesis by blast
    next
      case kt: False
      then have "check X c (StructExpr i messageName entries) = setType c1 i (NewMap kt vt)"
        using False e by simp
      then show ?thesis using steady_refl by blast
    qed
    then obtain c2 t where st: "steady c1 c2"
      and ch: "check X c (StructExpr i messageName entries) = setType c2 i t" by blast
    have "types c2 i = None" using unwritten_at(1) [OF st t1] .
    then have s: "setType c2 i t = Inr (c2\<lparr>types := (types c2)(i \<mapsto> t)\<rparr>)"
      by (rule setType_first)
    show ?thesis
      using ch s typed_setType [OF s, of "concat (map entryIds entries)"] ty
        typed_steady [OF st] by simp
  qed
next
  case (7 X c i iterVar iterRange accuVar accuInit loopCondition loopStep result)
  have dd: "distinct (i # ids iterRange @ ids accuInit @ ids loopCondition @ ids loopStep @
                      ids result)"
    using "7.prems"(1) by simp
  note d = distinct_five(1-5) [OF dd]
  note n = distinct_five(6-10) [OF dd]
  note x = distinct_five(11-20) [OF dd]
  have fresh: "types c i = None"
    and u: "unwritten c (ids iterRange)" "unwritten c (ids accuInit)"
      "unwritten c (ids loopCondition)" "unwritten c (ids loopStep)" "unwritten c (ids result)"
    using "7.prems"(2) by simp_all
  let ?E1 = "Add (enterScope E) (NewIdent accuVar NilType None)"
  let ?E2 = "Add (enterScope ?E1) (NewIdent iterVar NilType None)"
  have w: "walked E (container c) iterRange" "walked E (container c) accuInit"
    "walked ?E2 (container c) loopCondition" "walked ?E2 (container c) loopStep"
    "walked ?E1 (container c) result"
    using "7.prems"(4) by simp_all
  note nm = "7.prems"(3)
  obtain c1 where r: "check X c iterRange = Inr c1" and t1: "typed c1 (ids iterRange)"
    using "7.IH"(1) [OF d(1) u(1) nm w(1)] by blast
  note f1 = check_framed [OF r]
  have n1: "declNames E = declNames (env c1)" "container c1 = container c"
    using nm declNames_framed [OF f1] container_framed [OF f1] by simp_all
  obtain c2 where a: "check X c1 accuInit = Inr c2" and t2: "typed c2 (ids accuInit)"
    using "7.IH"(2) [OF r d(2) unwritten_framed [OF f1 x(1) u(2)] n1(1)] w(2) n1(2) by auto
  note f2 = framed_trans [OF f1 check_framed [OF a]]
  obtain c3 varType where
    v: "iterVarType c2 (Id iterRange) (getType c2 (Id iterRange)) = (c3, varType)"
    by (cases "iterVarType c2 (Id iterRange) (getType c2 (Id iterRange))")
  note f3 = framed_steady_right [OF f2 steady_iterVarType [OF v]]
  let ?inner = "bindVar (bindVar c3 accuVar (getType c2 (Id accuInit))) iterVar varType"
  have u3: "unwritten c3 (ids loopCondition)" "unwritten c3 (ids loopStep)"
    "unwritten c3 (ids result)" "types c3 i = None"
  proof -
    show "unwritten c3 (ids loopCondition)"
      by (rule unwritten_framed [OF f3 _ u(3)]) (simp add: Int_Un_distrib2 x)
    show "unwritten c3 (ids loopStep)"
      by (rule unwritten_framed [OF f3 _ u(4)]) (simp add: Int_Un_distrib2 x)
    show "unwritten c3 (ids result)"
      by (rule unwritten_framed [OF f3 _ u(5)]) (simp add: Int_Un_distrib2 x)
    show "types c3 i = None"
      by (rule framed_at(1) [OF f3 _ fresh]) (simp add: n)
  qed
  have t3: "typed c3 (ids iterRange)" "typed c3 (ids accuInit)"
    using typed_framed_before [OF check_framed [OF a] x(1) t1] t2
      typed_steady [OF steady_iterVarType [OF v]] by simp_all
  have n3: "declNames E = declNames (env c3)" "container c3 = container c"
    using nm declNames_framed [OF f3] container_framed [OF f3] by simp_all
  have ni: "declNames ?E2 = declNames (env ?inner)" "container ?inner = container c"
    using n3 by (simp_all add: declNames_scope)
  obtain c4 where lc: "check X ?inner loopCondition = Inr c4"
    and t4: "typed c4 (ids loopCondition)"
    using "7.IH"(3) [OF r a v [symmetric] d(3) _ ni(1)] u3(1) w(3) ni(2) by auto
  note f4 = check_framed [OF lc]
  let ?c4 = "assertType X c4 (Id loopCondition) Bool"
  note s4 = steady_assertType [of c4 X "Id loopCondition" Bool]
  have u4: "unwritten ?c4 (ids loopStep)" "unwritten ?c4 (ids result)" "types ?c4 i = None"
    using unwritten_framed [OF f4 x(8)] unwritten_framed [OF f4 x(9)] u3
      framed_at(1) [OF f4 n(3)] unwritten_steady [OF s4] unwritten_at(1) [OF s4]
    by simp_all
  have t4': "typed ?c4 (ids iterRange)" "typed ?c4 (ids accuInit)" "typed ?c4 (ids loopCondition)"
    using typed_framed [OF f4, of "ids iterRange"] typed_framed [OF f4, of "ids accuInit"]
      t3 t4 x typed_steady [OF s4] by (simp_all add: Int_commute)
  have n4: "declNames ?E2 = declNames (env ?c4)" "container ?c4 = container c"
    using ni declNames_framed [OF f4] container_framed [OF f4]
      declNames_steady [OF s4] container_steady [OF s4] by simp_all
  obtain c5 where ls: "check X ?c4 loopStep = Inr c5" and t5: "typed c5 (ids loopStep)"
    using "7.IH"(4) [OF r a v [symmetric] lc d(4) u4(1) n4(1)] w(4) n4(2) by auto
  note f5 = check_framed [OF ls]
  let ?a5 = "assertType X c5 (Id loopStep) (getType c2 (Id accuInit))"
  let ?c5 = "leaveScope ?a5"
  note s5 = steady_assertType [of c5 X "Id loopStep" "getType c2 (Id accuInit)"]
  have u5: "unwritten ?c5 (ids result)" "types ?c5 i = None"
    using unwritten_framed [OF f5 x(10) u4(2)] framed_at(1) [OF f5 n(4) u4(3)]
      unwritten_steady [OF s5] unwritten_at(1) [OF s5]
    by simp_all
  have t5': "typed ?c5 (ids iterRange)" "typed ?c5 (ids accuInit)"
    "typed ?c5 (ids loopCondition)" "typed ?c5 (ids loopStep)"
    using typed_framed [OF f5, of "ids iterRange"] typed_framed [OF f5, of "ids accuInit"]
      typed_framed [OF f5, of "ids loopCondition"]
      t4' t5 x typed_steady [OF s5] by (simp_all add: Int_commute)
  have "declNames (env ?a5) = declNames ?E2"
    by (simp only: declNames_steady [OF s5] declNames_framed [OF f5] n4(1))
  then have n5: "declNames ?E1 = declNames (env ?c5)" "container ?c5 = container c"
    using n4(2) container_framed [OF f5] container_steady [OF s5]
    by (simp_all add: declNames_scope)
  obtain c6 where re: "check X ?c5 result = Inr c6" and t6: "typed c6 (ids result)"
    using "7.IH"(5) [OF r a v [symmetric] lc ls d(5) u5(1) n5(1)] w(5) n5(2) by auto
  note f6 = check_framed [OF re]
  have t6': "typed c6 (ids iterRange)" "typed c6 (ids accuInit)"
    "typed c6 (ids loopCondition)" "typed c6 (ids loopStep)"
    using typed_framed [OF f6, of "ids iterRange"] typed_framed [OF f6, of "ids accuInit"]
      typed_framed [OF f6, of "ids loopCondition"] typed_framed [OF f6, of "ids loopStep"]
      t5' x by (simp_all add: Int_commute)
  have "types (leaveScope c6) i = None"
    using framed_at(1) [OF f6 n(5) u5(2)] by simp
  then have s: "setType (leaveScope c6) i (getType (leaveScope c6) (Id result)) =
      Inr ((leaveScope c6)\<lparr>types := (types (leaveScope c6))
             (i \<mapsto> getType (leaveScope c6) (Id result))\<rparr>)"
    by (rule setType_first)
  have "check X c (ComprehensionExpr i iterVar iterRange accuVar accuInit loopCondition
          loopStep result) =
      Inr ((leaveScope c6)\<lparr>types := (types (leaveScope c6))
             (i \<mapsto> getType (leaveScope c6) (Id result))\<rparr>)"
    using r a v lc ls re s by simp
  moreover have "typed ((leaveScope c6)\<lparr>types := (types (leaveScope c6))
             (i \<mapsto> getType (leaveScope c6) (Id result))\<rparr>)
          (ids iterRange @ ids accuInit @ ids loopCondition @ ids loopStep @ ids result)"
    using typed_setType [OF s] t6 t6' by simp
  ultimately show ?case
    using typed_setType [OF s, of "[]"] by simp
next
  case (8 X c i)
  then show ?case by simp
next
  case (9 X c)
  then show ?case by simp
next
  case (10 X c arg rest)
  have d: "distinct (ids arg)" "distinct (concat (map ids rest))"
    "set (ids arg) \<inter> set (concat (map ids rest)) = {}"
    and u: "unwritten c (ids arg)" "unwritten c (concat (map ids rest))"
    and w: "walked E (container c) arg" "list_all (walked E (container c)) rest"
    using "10.prems"(1,2,4) by simp_all
  obtain c1 where a: "check X c arg = Inr c1" and t1: "typed c1 (ids arg)"
    using "10.IH"(1) [OF d(1) u(1) "10.prems"(3) w(1)] by blast
  note f1 = check_framed [OF a]
  have n1: "declNames E = declNames (env c1)" "container c1 = container c"
    using "10.prems"(3) declNames_framed [OF f1] container_framed [OF f1] by simp_all
  obtain c' where r: "checkArgs X c1 rest = Inr c'" and t': "typed c' (concat (map ids rest))"
    using "10.IH"(2) [OF a d(2) unwritten_framed [OF f1 d(3) u(2)] n1(1)] w(2) n1(2) by auto
  have "typed c' (ids arg)"
    using typed_framed [OF checkArgs_framed [OF r] _ t1] d(3) by (simp add: Int_commute)
  then show ?case using a r t' by simp
next
  case (11 X c elemType)
  then show ?case by simp
next
  case (12 X c elemType e rest)
  have d: "distinct (ids e)" "distinct (concat (map ids rest))"
    "set (ids e) \<inter> set (concat (map ids rest)) = {}"
    and u: "unwritten c (ids e)" "unwritten c (concat (map ids rest))"
    and w: "walked E (container c) e" "list_all (walked E (container c)) rest"
    using "12.prems"(1,2,4) by simp_all
  obtain c1 where a: "check X c e = Inr c1" and t1: "typed c1 (ids e)"
    using "12.IH"(1) [OF d(1) u(1) "12.prems"(3) w(1)] by blast
  obtain c2 t2 where
    j: "joinTypes X c1 (location c1 (Id e)) elemType (getType c1 (Id e)) = (c2, t2)"
    by (cases "joinTypes X c1 (location c1 (Id e)) elemType (getType c1 (Id e))")
  note f2 = framed_steady_right [OF check_framed [OF a] steady_joinTypes [OF j]]
  have n2: "declNames E = declNames (env c2)" "container c2 = container c"
    using "12.prems"(3) declNames_framed [OF f2] container_framed [OF f2] by simp_all
  obtain c' t' where r: "checkElements X c2 t2 rest = Inr (c', t')"
    and t': "typed c' (concat (map ids rest))"
    using "12.IH"(2) [OF a j [symmetric] d(2) unwritten_framed [OF f2 d(3) u(2)] n2(1)]
      w(2) n2(2) by auto
  have "typed c2 (ids e)" using t1 typed_steady [OF steady_joinTypes [OF j]] by simp
  then have "typed c' (ids e)"
    using typed_framed [OF checkElements_framed [OF r]] d(3) by (simp add: Int_commute)
  then show ?case using a j r t' by simp
next
  case (13 X c keyType valueType)
  then show ?case by simp
next
  case (14 X c keyType valueType entId field v rest)
  then show ?case by simp
next
  case (15 X c keyType valueType entId key v rest)
  have d: "distinct (ids key)" "distinct (ids v)" "distinct (concat (map entryIds rest))"
    and x: "set (ids key) \<inter> set (ids v) = {}"
      "set (ids key) \<inter> set (concat (map entryIds rest)) = {}"
      "set (ids v) \<inter> set (concat (map entryIds rest)) = {}"
    and u: "unwritten c (ids key)" "unwritten c (ids v)" "unwritten c (concat (map entryIds rest))"
    and w: "walked E (container c) key" "walked E (container c) v"
      "list_all (walkedMapEntry E (container c)) rest"
    using "15.prems"(1,2,4) by (simp_all add: Int_Un_distrib Int_Un_distrib2)
  obtain c1 where k: "check X c key = Inr c1" and t1: "typed c1 (ids key)"
    using "15.IH"(1) [OF d(1) u(1) "15.prems"(3) w(1)] by blast
  obtain c2 kt2 where
    j: "joinTypes X c1 (location c1 (Id key)) keyType (getType c1 (Id key)) = (c2, kt2)"
    by (cases "joinTypes X c1 (location c1 (Id key)) keyType (getType c1 (Id key))")
  note f2 = framed_steady_right [OF check_framed [OF k] steady_joinTypes [OF j]]
  have n2: "declNames E = declNames (env c2)" "container c2 = container c"
    using "15.prems"(3) declNames_framed [OF f2] container_framed [OF f2] by simp_all
  have t2: "typed c2 (ids key)" using t1 typed_steady [OF steady_joinTypes [OF j]] by simp
  obtain c3 where vv: "check X c2 v = Inr c3" and t3: "typed c3 (ids v)"
    using "15.IH"(2) [OF k j [symmetric] d(2) unwritten_framed [OF f2 x(1) u(2)] n2(1)]
      w(2) n2(2) by auto
  obtain c4 vt4 where
    j2: "joinTypes X c3 (location c3 (Id v)) valueType (getType c3 (Id v)) = (c4, vt4)"
    by (cases "joinTypes X c3 (location c3 (Id v)) valueType (getType c3 (Id v))")
  note f4 = framed_steady_right [OF check_framed [OF vv] steady_joinTypes [OF j2]]
  have n4: "declNames E = declNames (env c4)" "container c4 = container c"
    using n2 declNames_framed [OF f4] container_framed [OF f4] by simp_all
  have t4: "typed c4 (ids key)" "typed c4 (ids v)"
    using typed_framed [OF f4 _ t2] x(1) t3 typed_steady [OF steady_joinTypes [OF j2]]
    by (simp_all add: Int_commute)
  have u4: "unwritten c4 (concat (map entryIds rest))"
    using unwritten_framed [OF f4 x(3) unwritten_framed [OF f2 x(2) u(3)]] .
  obtain c' kt' vt' where r: "checkMapEntries X c4 kt2 vt4 rest = Inr (c', kt', vt')"
    and t': "typed c' (concat (map entryIds rest))"
    using "15.IH"(3) [OF k j [symmetric] vv j2 [symmetric] d(3) u4 n4(1)] w(3) n4(2) by auto
  note f' = checkMapEntries_framed [OF r]
  have "typed c' (ids key)" "typed c' (ids v)"
    using typed_framed [OF f' _ t4(1)] typed_framed [OF f' _ t4(2)] x
    by (simp_all add: Int_commute)
  then show ?case using k j vv j2 r t' by simp
next
  case (16 X c messageType)
  then show ?case by simp
next
  case (17 X c messageType entId field v rest)
  have d: "distinct (ids v)" "distinct (concat (map entryIds rest))"
    "set (ids v) \<inter> set (concat (map entryIds rest)) = {}"
    and u: "unwritten c (ids v)" "unwritten c (concat (map entryIds rest))"
    and w: "walked E (container c) v" "list_all (walkedField E (container c)) rest"
    using "17.prems"(1,2,4) by simp_all
  obtain c1 where a: "check X c v = Inr c1" and t1: "typed c1 (ids v)"
    using "17.IH"(1) [OF d(1) u(1) "17.prems"(3) w(1)] by blast
  let ?c2 = "checkFieldType X c1 messageType entId field (Id v)"
  note st = steady_checkFieldType [of c1 X messageType entId field "Id v"]
  note f2 = framed_steady_right [OF check_framed [OF a] st]
  have n2: "declNames E = declNames (env ?c2)" "container ?c2 = container c"
    using "17.prems"(3) declNames_framed [OF f2] container_framed [OF f2] by simp_all
  obtain c' where r: "checkFieldInitializers X ?c2 messageType rest = Inr c'"
    and t': "typed c' (concat (map entryIds rest))"
    using "17.IH"(2) [OF a d(2) unwritten_framed [OF f2 d(3) u(2)] n2(1)] w(2) n2(2) by auto
  have "typed ?c2 (ids v)" using t1 typed_steady [OF st] by simp
  then have "typed c' (ids v)"
    using typed_framed [OF checkFieldInitializers_framed [OF r]] d(3) by (simp add: Int_commute)
  then show ?case using a r t' by simp
next
  case (18 X c messageType entId key v rest)
  then show ?case by simp
qed

section \<open>The location resolver\<close>

lemma scanLineOffsets_takeWhile:
  "scanLineOffsets offset line col los =
     (let before = takeWhile (\<lambda>lineOffset. lineOffset <s offset) los
      in (line + int (length before),
          if before = [] then col else sint (offset - last before)))"
  by (induction los arbitrary: line col) (auto simp: Let_def)

lemma filter_ascending_takeWhile:
  "sorted_wrt (\<le>s) los \<Longrightarrow>
     filter (\<lambda>lineOffset. lineOffset <s (offset :: 32 word)) los =
     takeWhile (\<lambda>lineOffset. lineOffset <s offset) los"
proof (induction los)
  case Nil
  then show ?case by simp
next
  case (Cons lo los)
  show ?case
  proof (cases "lo <s offset")
    case True
    with Cons show ?thesis by simp
  next
    case False
    have "\<not> x <s offset" if "x \<in> set los" for x
      using that Cons.prems False by (auto simp: word_sless_alt word_sle_eq)
    then have "filter (\<lambda>lineOffset. lineOffset <s offset) los = []"
      by (simp add: filter_empty_conv)
    with False show ?thesis by simp
  qed
qed

lemma sint_sub_no_wrap:
  fixes offset lo :: "32 word"
  assumes "0 \<le>s lo" and "lo <s offset"
  shows "sint (offset - lo) = sint offset - sint lo"
proof -
  have a: "0 \<le> sint lo" "sint lo < sint offset"
    using assms by (simp_all add: word_sless_alt word_sle_eq)
  have b: "sint offset < 2 ^ 31" using sint_lt [of offset] by simp
  have "sint (offset - lo) = signed_take_bit 31 (sint offset - sint lo)"
    by (simp add: sint_word_ariths)
  also have "\<dots> = sint offset - sint lo"
    using a b by (intro signed_take_bit_int_eq_self) auto
  finally show ?thesis .
qed

text \<open>
  C8 (as amended). For a node id with a recorded offset, when the line offsets are in
  ascending order and not negative, \<open>locationById\<close> returns the line
  \<open>1 + (number of line offsets strictly less than the offset)\<close> and the column
  \<open>offset - (last line offset strictly less than it)\<close>; when no line offset is
  strictly less, the column is the offset itself. For a node id with no recorded offset
  it returns \<open>NoLocation\<close>.
\<close>

theorem locationById_ascending:
  assumes "sorted_wrt (\<le>s) (LineOffsets si)"
      and "\<forall>lineOffset \<in> set (LineOffsets si). 0 \<le>s lineOffset"
  shows "locationById si i = spec_locationById si i"
proof (cases "Positions si i")
  case None
  then show ?thesis by (simp add: locationById_def spec_locationById_def)
next
  case (Some offset)
  let ?before = "takeWhile (\<lambda>lineOffset. lineOffset <s offset) (LineOffsets si)"
  have f: "filter (\<lambda>lineOffset. lineOffset <s offset) (LineOffsets si) = ?before"
    using assms(1) by (rule filter_ascending_takeWhile)
  have c: "sint (offset - last ?before) = sint offset - sint (last ?before)"
    if "?before \<noteq> []"
  proof -
    have "last ?before \<in> set ?before" using that by simp
    then have "last ?before \<in> set (LineOffsets si)" and "last ?before <s offset"
      by (auto dest: set_takeWhileD)
    with assms(2) show ?thesis by (intro sint_sub_no_wrap) auto
  qed
  show ?thesis
    using Some c
    by (simp add: locationById_def spec_locationById_def f scanLineOffsets_takeWhile Let_def)
qed

theorem locationById_ascending_witness:
  "sorted_wrt (\<le>s) (LineOffsets two_line_source) \<and>
   list_all (\<lambda>lineOffset. 0 \<le>s lineOffset) (LineOffsets two_line_source) \<and>
   locationById two_line_source 7 = NewLocation 2 2 \<and>
   locationById two_line_source 8 = NoLocation"
proof -
  have s: "sorted_wrt (\<le>s) (LineOffsets two_line_source)"
    by (simp add: two_line_source_def word_sle_eq)
  have n: "\<forall>lineOffset \<in> set (LineOffsets two_line_source). 0 \<le>s lineOffset"
    by (simp add: two_line_source_def word_sle_eq)
  have "locationById two_line_source 7 = NewLocation 2 2"
    using locationById_ascending [OF s n, of 7]
    by (simp add: spec_locationById_def two_line_source_def word_sless_alt)
  moreover have "locationById two_line_source 8 = NoLocation"
    using locationById_ascending [OF s n, of 8]
    by (simp add: spec_locationById_def two_line_source_def)
  ultimately show ?thesis using s n by (simp add: list_all_iff)
qed

text \<open>
  The claim as stated fails in two places. The first byte of the text, at offset 0 on
  the first line, gets column 0, so first-line columns are not 1-based. And the scan
  stops at the first line offset that is not less than the offset: for line offsets out
  of order it does not count every smaller entry.
\<close>

theorem locationById_counterexample:
  "locationById first_byte_source 1 = NewLocation 1 0 \<and>
   locationById unordered_source 1 = NewLocation 1 5 \<and>
   spec_locationById unordered_source 1 = NewLocation 2 2"
  by (simp add: locationById_def spec_locationById_def first_byte_source_def
      unordered_source_def word_sless_alt)

section \<open>The entry point on an absent root\<close>

text \<open>
  C9. If the root expression of the parsed expression is absent, \<open>Check\<close> returns
  normally: the type map and the reference map of the result are empty, and the
  environment is returned as it was given, so no diagnostic has been emitted.
\<close>

theorem Check_nil_root:
  "GetExpr parsedExpr = None \<Longrightarrow>
   Check X parsedExpr E cont =
     Inr (\<lparr>Expr = None, SourceInfo = GetSourceInfo parsedExpr,
           TypeMap = Map.empty, ReferenceMap = Map.empty\<rparr>, E)"
  by (simp add: Check_def newChecker_def)

theorem Check_nil_root_witness:
  "Check spec_types \<lparr>GetExpr = None, GetSourceInfo = two_line_source\<rparr> empty_env ''a.b'' =
     Inr (\<lparr>Expr = None, SourceInfo = two_line_source,
           TypeMap = Map.empty, ReferenceMap = Map.empty\<rparr>, empty_env) \<and>
   errors empty_env = []"
  using Check_nil_root [of "\<lparr>GetExpr = None, GetSourceInfo = two_line_source\<rparr>"
      spec_types empty_env "''a.b''"]
  by (simp add: empty_env_def)

section \<open>Test-only selections\<close>

text \<open>
  C6. A selection with the test-only flag set is typed \<open>Bool\<close> whenever \<open>check\<close>
  returns on it. When the chain resolves as a qualified identifier (and the node has no
  type yet), \<open>check\<close> returns, having emitted expression-does-not-select-field and
  typed the node \<open>Bool\<close>. When it does not and the operand has been checked, \<open>Bool\<close>
  replaces whatever type the switch on the operand's kind computed.
\<close>

theorem select_testOnly_Bool:
  "(\<forall>c'. check X c (SelectExpr i operand field True) = Inr c' \<longrightarrow> types c' i = Some Bool) \<and>
   (\<forall>ident. selectAsIdent (env c) (container c) (SelectExpr i operand field True) = Some ident \<longrightarrow>
      types c i = None \<longrightarrow>
      check X c (SelectExpr i operand field True) =
        Inr ((report c (expressionDoesNotSelectField (location c i)))
               \<lparr>types := (types c)(i \<mapsto> Bool)\<rparr>)) \<and>
   (\<forall>c1. selectAsIdent (env c) (container c) (SelectExpr i operand field True) = None \<longrightarrow>
      check X c operand = Inr c1 \<longrightarrow> types c1 i = None \<longrightarrow>
      check X c (SelectExpr i operand field True) =
        Inr ((fst (selectField c1 i (getType c1 (Id operand)) field True))
               \<lparr>types := (types c1)(i \<mapsto> Bool)\<rparr>))"
proof (intro conjI allI impI)
  fix c'
  assume "check X c (SelectExpr i operand field True) = Inr c'"
  then show "types c' i = Some Bool"
    by (auto split: option.splits sum.splits prod.splits dest!: setType_Inr)
next
  fix ident
  assume "selectAsIdent (env c) (container c) (SelectExpr i operand field True) = Some ident" "types c i = None"
  then show "check X c (SelectExpr i operand field True) =
        Inr ((report c (expressionDoesNotSelectField (location c i)))
               \<lparr>types := (types c)(i \<mapsto> Bool)\<rparr>)"
    by (simp add: setType_first)
next
  fix c1
  assume a: "selectAsIdent (env c) (container c) (SelectExpr i operand field True) = None"
    "check X c operand = Inr c1" "types c1 i = None"
  obtain c2 rt where s: "selectField c1 i (getType c1 (Id operand)) field True = (c2, rt)"
    by (cases "selectField c1 i (getType c1 (Id operand)) field True")
  have "types c2 = types c1"
    using types_selectField [of c1 i "getType c1 (Id operand)" field True] s by simp
  then show "check X c (SelectExpr i operand field True) =
        Inr ((fst (selectField c1 i (getType c1 (Id operand)) field True))
               \<lparr>types := (types c1)(i \<mapsto> Bool)\<rparr>)"
    using a s by (simp add: setType_first)
qed

theorem select_testOnly_Bool_witness:
  "check spec_types (start x_f_env) has_x_f =
     Inr ((report (start x_f_env) (expressionDoesNotSelectField NoLocation))
            \<lparr>types := [1 \<mapsto> Bool]\<rparr>) \<and>
   types (projr (check spec_types (start empty_env) has_map_f)) 1 = Some Bool"
proof -
  have q: "selectAsIdent (env (start x_f_env)) (container (start x_f_env)) has_x_f = Some (NewIdent ''x.f'' Int64 None)"
    by code_simp
  have f: "types (start x_f_env) 1 = None"
    by (simp add: start_def newChecker_def)
  have l: "location (start x_f_env) 1 = NoLocation"
    by code_simp
  have r: "check spec_types (start empty_env) has_map_f =
             Inr (projr (check spec_types (start empty_env) has_map_f))"
    by (rule sum.collapse(2) [symmetric]) code_simp
  note t = select_testOnly_Bool [of spec_types _ 1 _ "''f''"]
  have "check spec_types (start x_f_env) has_x_f =
     Inr ((report (start x_f_env) (expressionDoesNotSelectField NoLocation))
            \<lparr>types := [1 \<mapsto> Bool]\<rparr>)"
    using t [of "start x_f_env" "IdentExpr 2 ''x''"] q f l
    by (simp add: has_x_f_def start_def newChecker_def)
  moreover have "types (projr (check spec_types (start empty_env) has_map_f)) 1 = Some Bool"
    using t [of "start empty_env" "StructExpr 2 [] []"] r
    by (simp add: has_map_f_def)
  ultimately show ?thesis by simp
qed

text \<open>
  C10. A test-only selection that is not resolved as a qualified identifier and whose
  operand has a type \<open>NewMap k v\<close> is typed \<open>Bool\<close>, and the state is otherwise the
  one the check of the operand left: the selection emits no diagnostic, the presence test
  being made for object operands only.
\<close>

theorem select_testOnly_map:
  assumes "selectAsIdent (env c) (container c) (SelectExpr i operand field True) = None"
      and "check X c operand = Inr c1"
      and "getType c1 (Id operand) = NewMap k v"
      and "types c1 i = None"
  shows "check X c (SelectExpr i operand field True) =
           Inr (c1\<lparr>types := (types c1)(i \<mapsto> Bool)\<rparr>)"
  using assms by (simp add: selectField_def setType_first)

theorem select_testOnly_map_witness:
  "check spec_types (start empty_env) has_map_f =
     Inr ((projr (check spec_types (start empty_env) (StructExpr 2 [] [])))
            \<lparr>types := [2 \<mapsto> NewMap (NewTypeParam ''_var0'') (NewTypeParam ''_var1''),
                        1 \<mapsto> Bool]\<rparr>) \<and>
   errors (env (projr (check spec_types (start empty_env) has_map_f))) = []"
proof -
  let ?c1 = "projr (check spec_types (start empty_env) (StructExpr 2 [] []))"
  have a: "selectAsIdent (env (start empty_env)) (container (start empty_env)) has_map_f = None"
    by code_simp
  have b: "check spec_types (start empty_env) (StructExpr 2 [] []) = Inr ?c1"
    by (rule sum.collapse(2) [symmetric]) code_simp
  have c: "getType ?c1 (Id (StructExpr 2 [] [])) =
             NewMap (NewTypeParam ''_var0'') (NewTypeParam ''_var1'')"
    by code_simp
  have d: "types ?c1 1 = None"
    by code_simp
  have t: "types ?c1 = [2 \<mapsto> NewMap (NewTypeParam ''_var0'') (NewTypeParam ''_var1'')]"
    by (simp add: start_def newChecker_def setType_def newTypeVar_def decimal_digits)
  have e: "errors (env ?c1) = []"
    by code_simp
  have "check spec_types (start empty_env) has_map_f = Inr (?c1\<lparr>types := (types ?c1)(1 \<mapsto> Bool)\<rparr>)"
    using select_testOnly_map [OF a [unfolded has_map_f_def] b c d] by (simp add: has_map_f_def)
  then show ?thesis using t e by simp
qed

section \<open>Overload resolution\<close>

lemma resolveOverloads_later:
  "resultType \<noteq> NilType \<Longrightarrow>
   snd (resolveOverloads X h a c resultType (Some r) os) =
     (if matchingOverloads X h a c os = [] then resultType else Dyn,
      Some (r\<lparr>ref_OverloadId :=
                ref_OverloadId r @ map (\<lambda>m. OverloadId (fst m)) (matchingOverloads X h a c os)\<rparr>))"
proof (induction os arbitrary: c resultType r)
  case Nil
  then show ?case by simp
next
  case (Cons overload os)
  show ?case
  proof (cases "IsInstanceFunction overload \<noteq> h")
    case True
    then show ?thesis using Cons by auto
  next
    case False
    obtain c1 overloadType where i: "instantiate X c overload = (c1, overloadType)"
      by (cases "instantiate X c overload")
    show ?thesis
    proof (cases "IsAssignableList X (mappings c1) a (GetFunction_ArgTypes overloadType)")
      case None
      then show ?thesis
        using False i Cons.IH [OF Cons.prems, of c1 r] Cons.prems
        by (auto simp: isAssignableList_def)
    next
      case (Some store)
      have "Dyn \<noteq> NilType" by simp
      from Cons.IH [OF this, of "c1\<lparr>mappings := store\<rparr>"
          "r\<lparr>ref_OverloadId := ref_OverloadId r @ [OverloadId overload]\<rparr>"]
      show ?thesis
        using False i Some Cons.prems by (auto simp: isAssignableList_def)
    qed
  qed
qed

lemma resolveOverloads_first:
  "matchingOverloads X h a c os = (overload, r, c1) # rest \<Longrightarrow>
   Substitute X (mappings c1) r False \<noteq> NilType \<Longrightarrow>
   snd (resolveOverloads X h a c NilType None os) =
     (if rest = [] then Substitute X (mappings c1) r False else Dyn,
      Some (newFunctionReference (OverloadId overload # map (\<lambda>m. OverloadId (fst m)) rest)))"
proof (induction os arbitrary: c)
  case Nil
  then show ?case by simp
next
  case (Cons o' os)
  show ?case
  proof (cases "IsInstanceFunction o' \<noteq> h")
    case True
    then show ?thesis using Cons by auto
  next
    case False
    obtain c2 overloadType where i: "instantiate X c o' = (c2, overloadType)"
      by (cases "instantiate X c o'")
    show ?thesis
    proof (cases "IsAssignableList X (mappings c2) a (GetFunction_ArgTypes overloadType)")
      case None
      then show ?thesis
        using False i Cons by (auto simp: isAssignableList_def)
    next
      case (Some store)
      then have m: "o' = overload" "r = GetFunction_ResultType overloadType"
        "c1 = c2\<lparr>mappings := store\<rparr>"
        "rest = matchingOverloads X h a (c2\<lparr>mappings := store\<rparr>) os"
        using False i Cons.prems(1) by auto
      show ?thesis
        using False i Some m Cons.prems(2)
          resolveOverloads_later [of "Substitute X store (GetFunction_ResultType overloadType) False"
            X h a "c2\<lparr>mappings := store\<rparr>" "newFunctionReference [OverloadId o']" os]
        by (auto simp: isAssignableList_def newFunctionReference_def)
    qed
  qed
qed

lemma resolveOverloads_none:
  "matchingOverloads X h a c os = [] \<Longrightarrow>
   snd (resolveOverloads X h a c NilType None os) = (NilType, None)"
proof (induction os arbitrary: c)
  case Nil
  then show ?case by simp
next
  case (Cons o' os)
  then show ?case
    by (auto simp: isAssignableList_def split: prod.splits option.splits if_splits)
qed

lemma matchingOverloads_declared:
  "matchingOverloads X h a c os = (overload, r, c1) # rest \<Longrightarrow>
   TypeParams overload = [] \<Longrightarrow> r = ResultType overload"
proof (induction os arbitrary: c)
  case Nil
  then show ?case by simp
next
  case (Cons o' os)
  then show ?case
    by (auto simp: instantiate_def split: if_splits prod.splits option.splits)
qed




section \<open>The type map after Check\<close>

lemma substituteFuel_collapses: "\<not> hasTypeParam (substituteFuel n m True t)"
  by (induction n m True t rule: substituteFuel.induct)
     (auto simp: list_ex_iff split: option.splits nat.splits)

lemma spec_Substitute_collapses: "\<not> hasTypeParam (Substitute spec_types m t True)"
  by (simp add: spec_types_def spec_Substitute_def substituteFuel_collapses)

lemma unwritten_newChecker: "unwritten (newChecker parsedExpr E cont) js"
  by (simp add: unwritten_def newChecker_def list_all_iff)




section \<open>Writes to the maps never conflict\<close>

lemma equalConstant_same: "(\<And>w. a \<noteq> DoubleValue w) \<Longrightarrow> equalConstant a b = (a = b)"
  by (cases a; cases b) auto

lemma equalReference_same: "\<not> holdsDouble old \<Longrightarrow> equalReference old r = (old = r)"
proof (cases old)
  case None
  then show ?thesis by (auto simp: equalReference_def)
next
  case (Some a)
  assume h: "\<not> holdsDouble old"
  show ?thesis
  proof (cases r)
    case None
    then show ?thesis using Some by (simp add: equalReference_def)
  next
    case (Some b)
    have v: "equalValue (ref_Value a) (ref_Value b) = (ref_Value a = ref_Value b)"
    proof (cases "ref_Value a")
      case None
      then show ?thesis by (auto simp: equalValue_def)
    next
      case (Some x)
      then have "\<And>w. x \<noteq> DoubleValue w"
        using h \<open>old = Some a\<close> by (auto simp: holdsDouble_def)
      then show ?thesis
        using Some equalConstant_same [of x] by (auto simp: equalValue_def split: option.splits)
    qed
    show ?thesis
      using \<open>old = Some a\<close> Some v by (cases a; cases b) (auto simp: equalReference_def)
  qed
qed




section \<open>Overload resolution touches the store and the counter only\<close>

lemma newTypeVar_only:
  "newTypeVar c = (c', v) \<Longrightarrow> \<exists>m n. c' = c\<lparr>mappings := m, freeTypeVarCounter := n\<rparr>"
proof -
  assume "newTypeVar c = (c', v)"
  then have "c' = c\<lparr>mappings := mappings c, freeTypeVarCounter := Suc (freeTypeVarCounter c)\<rparr>"
    by (auto simp: newTypeVar_def)
  then show ?thesis by blast
qed

lemma freshSubstitutions_only:
  "freshSubstitutions c subs ps = (c', subs') \<Longrightarrow>
   \<exists>m n. c' = c\<lparr>mappings := m, freeTypeVarCounter := n\<rparr>"
proof (induction ps arbitrary: c subs)
  case Nil
  then have "c' = c\<lparr>mappings := mappings c, freeTypeVarCounter := freeTypeVarCounter c\<rparr>"
    by simp
  then show ?case by blast
next
  case (Cons p ps)
  obtain c1 v where n: "newTypeVar c = (c1, v)" by (cases "newTypeVar c")
  then obtain m n where c1: "c1 = c\<lparr>mappings := m, freeTypeVarCounter := n\<rparr>"
    using newTypeVar_only by blast
  from Cons.prems n
  have "freshSubstitutions c1 (Mapping_Add subs (NewTypeParam p) v) ps = (c', subs')"
    by simp
  then obtain m' n' where "c' = c1\<lparr>mappings := m', freeTypeVarCounter := n'\<rparr>"
    using Cons.IH by blast
  then have "c' = c\<lparr>mappings := m', freeTypeVarCounter := n'\<rparr>"
    using c1 by simp
  then show ?case by blast
qed

lemma instantiate_only:
  "instantiate X c overload = (c', t) \<Longrightarrow>
   \<exists>m n. c' = c\<lparr>mappings := m, freeTypeVarCounter := n\<rparr>"
proof (cases "TypeParams overload \<noteq> []")
  case True
  assume "instantiate X c overload = (c', t)"
  with True show ?thesis
    by (auto simp: instantiate_def split: prod.splits dest: freshSubstitutions_only)
next
  case False
  assume "instantiate X c overload = (c', t)"
  with False
  have "c' = c\<lparr>mappings := mappings c, freeTypeVarCounter := freeTypeVarCounter c\<rparr>"
    by (simp add: instantiate_def)
  then show ?thesis by blast
qed

lemma isAssignableList_only:
  "isAssignableList X c l1 l2 = (c', b) \<Longrightarrow>
   \<exists>m n. c' = c\<lparr>mappings := m, freeTypeVarCounter := n\<rparr>"
proof -
  assume a: "isAssignableList X c l1 l2 = (c', b)"
  show ?thesis
  proof (cases "IsAssignableList X (mappings c) l1 l2")
    case None
    then have "c' = c\<lparr>mappings := mappings c, freeTypeVarCounter := freeTypeVarCounter c\<rparr>"
      using a by (simp add: isAssignableList_def)
    then show ?thesis by blast
  next
    case (Some subs)
    then have "c' = c\<lparr>mappings := subs, freeTypeVarCounter := freeTypeVarCounter c\<rparr>"
      using a by (auto simp: isAssignableList_def)
    then show ?thesis by blast
  qed
qed

lemma resolveOverloads_only:
  "resolveOverloads X h a c rt ref os = (c', rt', ref') \<Longrightarrow>
   \<exists>m n. c' = c\<lparr>mappings := m, freeTypeVarCounter := n\<rparr>"
proof (induction os arbitrary: c rt ref)
  case Nil
  then have "c' = c\<lparr>mappings := mappings c, freeTypeVarCounter := freeTypeVarCounter c\<rparr>"
    by simp
  then show ?case by blast
next
  case (Cons overload os)
  show ?case
  proof (cases "(\<not> h \<and> IsInstanceFunction overload) \<or> (h \<and> \<not> IsInstanceFunction overload)")
    case True
    then show ?thesis using Cons by simp
  next
    case False
    obtain c1 t where i: "instantiate X c overload = (c1, t)"
      by (cases "instantiate X c overload")
    obtain c2 b where l: "isAssignableList X c1 a (GetFunction_ArgTypes t) = (c2, b)"
      by (cases "isAssignableList X c1 a (GetFunction_ArgTypes t)")
    obtain m1 n1 m2 n2 where
      c1: "c1 = c\<lparr>mappings := m1, freeTypeVarCounter := n1\<rparr>"
      and c2: "c2 = c1\<lparr>mappings := m2, freeTypeVarCounter := n2\<rparr>"
      using instantiate_only [OF i] isAssignableList_only [OF l] by blast
    have "\<exists>rt2 ref2. resolveOverloads X h a c2 rt2 ref2 os = (c', rt', ref')"
      using Cons.prems False i l by (cases b) auto
    then obtain m n where "c' = c2\<lparr>mappings := m, freeTypeVarCounter := n\<rparr>"
      using Cons.IH by blast
    then have "c' = c\<lparr>mappings := m, freeTypeVarCounter := n\<rparr>"
      using c1 c2 by simp
    then show ?thesis by blast
  qed
qed

lemma resolveOverload_none:
  assumes "matchingOverloads X (target \<noteq> None) (callArgTypes c target args) c (fn_Overloads fn) = []"
  shows "\<exists>m n. resolveOverload X c l fn target args =
           (report (c\<lparr>mappings := m, freeTypeVarCounter := n\<rparr>)
              (noMatchingOverload l (fn_Name fn) (callArgTypes c target args) (target \<noteq> None)),
            None)"
proof -
  let ?a = "callArgTypes c target args"
  obtain c1 rt ref where
    r: "resolveOverloads X (target \<noteq> None) ?a c NilType None (fn_Overloads fn) = (c1, rt, ref)"
    by (cases "resolveOverloads X (target \<noteq> None) ?a c NilType None (fn_Overloads fn)")
  have "rt = NilType"
    using resolveOverloads_none [OF assms] r by simp
  moreover obtain m n where "c1 = c\<lparr>mappings := m, freeTypeVarCounter := n\<rparr>"
    using resolveOverloads_only [OF r] by blast
  ultimately show ?thesis
    using r by (auto simp: resolveOverload_def callArgTypes_def Let_def)
qed

lemma location_only [simp]:
  "location (c\<lparr>mappings := m, freeTypeVarCounter := n\<rparr>) i = location c i"
  by (simp add: location_def)

lemma framed_outside:
  "framed js c c' \<Longrightarrow> set js \<inter> set ks = {} \<Longrightarrow>
   list_all (\<lambda>j. types c' j = types c j \<and> references c' j = references c j) ks"
  by (auto simp: framed_def list_all_iff)

section \<open>Calls\<close>




text \<open>
  C4 (as amended). Let the arguments of a call with a receiver have been checked. If the
  receiver reads as a qualified name \<open>q\<close>, the function table resolves
  \<open>q.function\<close>, and overload resolution of the call taken as a static call without
  receiver argument gives a resolution, then the call is resolved by that resolution and
  the receiver is not checked: with unique ids, no entry of the two maps is written at a
  node of the receiver. In every other case, also when \<open>q.function\<close> resolves but
  overload resolution gives no resolution for it, the receiver is checked and the call's
  function name is looked up by itself and resolved with the receiver's type as the
  first argument type.
\<close>

theorem call_with_receiver:
  assumes "checkArgs X c args = Inr c1"
  shows "(\<forall>q fn c2 r.
            asQualifiedName t = Some q \<longrightarrow>
            LookupFunction (env c1) (container c1) (q @ ''.'' @ f) = Some fn \<longrightarrow>
            resolveOverload X c1 (location c1 i) fn None args = (c2, Some r) \<longrightarrow>
            check X c (CallExpr i (Some t) f args) = setResolution c2 i (Some r) \<and>
            (\<forall>c'. setResolution c2 i (Some r) = Inr c' \<longrightarrow>
               i \<notin> set (ids t) \<longrightarrow> set (concat (map ids args)) \<inter> set (ids t) = {} \<longrightarrow>
               list_all (\<lambda>j. types c' j = types c j \<and> references c' j = references c j)
                 (ids t))) \<and>
         (\<forall>c2. resolveStatic X c1 i t f args = (c2, None) \<longrightarrow>
            check X c (CallExpr i (Some t) f args) =
              (case check X c2 t of
                 Inl p \<Rightarrow> Inl p
               | Inr c3 \<Rightarrow>
                   (case LookupFunction (env c3) (container c3) f of
                      Some fn \<Rightarrow>
                        (case resolveOverload X c3 (location c3 i) fn (Some t) args of
                           (c4, resolution) \<Rightarrow> setResolution c4 i resolution)
                    | None \<Rightarrow>
                        setResolution
                          (report c3 (undeclaredReference (location c3 i) (container c3) f))
                          i None))) \<and>
         (resolveStatic X c1 i t f args =
            (case asQualifiedName t of
               None \<Rightarrow> (c1, None)
             | Some q \<Rightarrow>
                 (case LookupFunction (env c1) (container c1) (q @ ''.'' @ f) of
                    None \<Rightarrow> (c1, None)
                  | Some fn \<Rightarrow> resolveOverload X c1 (location c1 i) fn None args))) \<and>
         (\<forall>c3 l fn. snd (resolveOverload X c3 l fn (Some t) args) =
            (case snd (resolveOverloads X True
                         (getType c3 (Id t) # map (\<lambda>arg. getType c3 (Id arg)) args)
                         c3 NilType None (fn_Overloads fn)) of
               (resultType, ref) \<Rightarrow>
                 if resultType = NilType then None else Some (newResolution ref resultType)))"
proof (intro conjI allI impI)
  fix q fn c2 r
  assume q: "asQualifiedName t = Some q"
    and l: "LookupFunction (env c1) (container c1) (q @ ''.'' @ f) = Some fn"
    and r: "resolveOverload X c1 (location c1 i) fn None args = (c2, Some r)"
  have rs: "resolveStatic X c1 i t f args = (c2, Some r)"
    using q l r by (simp add: resolveStatic_def staticFunction_def)
  then show "check X c (CallExpr i (Some t) f args) = setResolution c2 i (Some r)"
    using assms by simp
  fix c'
  assume s: "setResolution c2 i (Some r) = Inr c'"
    and d: "i \<notin> set (ids t)" "set (concat (map ids args)) \<inter> set (ids t) = {}"
  have fr: "framed (concat (map ids args) @ [i]) c c'"
    using framed_trans [OF framed_steady_right [OF checkArgs_framed [OF assms]
          steady_resolveStatic [OF rs]] framed_setResolution [OF s]] .
  have "set (concat (map ids args) @ [i]) \<inter> set (ids t) = {}"
    using d by simp
  then show "list_all (\<lambda>j. types c' j = types c j \<and> references c' j = references c j) (ids t)"
    by (rule framed_outside [OF fr])
next
  fix c2
  assume "resolveStatic X c1 i t f args = (c2, None)"
  then show "check X c (CallExpr i (Some t) f args) =
              (case check X c2 t of
                 Inl p \<Rightarrow> Inl p
               | Inr c3 \<Rightarrow>
                   (case LookupFunction (env c3) (container c3) f of
                      Some fn \<Rightarrow>
                        (case resolveOverload X c3 (location c3 i) fn (Some t) args of
                           (c4, resolution) \<Rightarrow> setResolution c4 i resolution)
                    | None \<Rightarrow>
                        setResolution
                          (report c3 (undeclaredReference (location c3 i) (container c3) f))
                          i None))"
    using assms by (simp add: resolveNamed_def split: sum.splits option.splits)
next
  show "resolveStatic X c1 i t f args =
            (case asQualifiedName t of
               None \<Rightarrow> (c1, None)
             | Some q \<Rightarrow>
                 (case LookupFunction (env c1) (container c1) (q @ ''.'' @ f) of
                    None \<Rightarrow> (c1, None)
                  | Some fn \<Rightarrow> resolveOverload X c1 (location c1 i) fn None args))"
    by (simp add: resolveStatic_def staticFunction_def split: option.splits)
next
  fix c3 l fn
  show "snd (resolveOverload X c3 l fn (Some t) args) =
            (case snd (resolveOverloads X True
                         (getType c3 (Id t) # map (\<lambda>arg. getType c3 (Id arg)) args)
                         c3 NilType None (fn_Overloads fn)) of
               (resultType, ref) \<Rightarrow>
                 if resultType = NilType then None else Some (newResolution ref resultType))"
    by (simp add: resolveOverload_def Let_def split: prod.splits)
qed

theorem call_with_receiver_witness:
  "types (projr (check spec_types (start static_env) call_a_f)) 1 = Some Int64 \<and>
   types (projr (check spec_types (start static_env) call_a_f)) 2 = None \<and>
   references (projr (check spec_types (start static_env) call_a_f)) 2 = None \<and>
   types (projr (check spec_types (start arity_env) call_a_f)) 2 = Some Error"
proof -
  let ?t = "IdentExpr 2 ''a''"
  let ?c = "start static_env"
  let ?fn = "\<lparr>fn_Name = ''a.f'', fn_Overloads = [a_f_overload]\<rparr>"
  let ?r = "newResolution (Some (newFunctionReference [''a_f''])) Int64"
  let ?c2 = "fst (resolveOverload spec_types ?c (location ?c 1) ?fn None [])"
  have a: "checkArgs spec_types ?c [] = Inr ?c"
    by simp
  have q: "asQualifiedName ?t = Some ''a''"
    by simp
  have l: "LookupFunction (env ?c) (container ?c) (''a'' @ ''.'' @ ''f'') = Some ?fn"
    by code_simp
  have "snd (resolveOverload spec_types ?c (location ?c 1) ?fn None []) = Some ?r"
    by code_simp
  then have o: "resolveOverload spec_types ?c (location ?c 1) ?fn None [] = (?c2, Some ?r)"
    by (simp add: prod_eq_iff)
  note A = call_with_receiver [OF a, THEN conjunct1, rule_format, OF q l o]
  have e: "check spec_types ?c call_a_f = setResolution ?c2 1 (Some ?r)"
    using A [THEN conjunct1] by (simp add: call_a_f_def)
  have "\<not> isl (check spec_types ?c call_a_f)"
    by code_simp
  then have s: "setResolution ?c2 1 (Some ?r) = Inr (projr (check spec_types ?c call_a_f))"
    using e by (simp add: sum.collapse(2))
  have "list_all (\<lambda>j. types (projr (check spec_types ?c call_a_f)) j = types ?c j \<and>
                       references (projr (check spec_types ?c call_a_f)) j = references ?c j)
          (ids ?t)"
    using A [THEN conjunct2, rule_format, OF s] by simp
  then have 1: "types (projr (check spec_types ?c call_a_f)) 2 = None"
    "references (projr (check spec_types ?c call_a_f)) 2 = None"
    by (simp_all add: start_def newChecker_def)
  have 2: "types (projr (check spec_types ?c call_a_f)) 1 = Some Int64"
    by code_simp
  let ?d = "start arity_env"
  let ?d2 = "fst (resolveStatic spec_types ?d 1 ?t ''f'' [])"
  have a': "checkArgs spec_types ?d [] = Inr ?d"
    by simp
  have "snd (resolveStatic spec_types ?d 1 ?t ''f'' []) = None"
    by code_simp
  then have s': "resolveStatic spec_types ?d 1 ?t ''f'' [] = (?d2, None)"
    by (simp add: prod_eq_iff)
  note B = call_with_receiver [OF a', THEN conjunct2, THEN conjunct1, rule_format, OF s']
  have "types (projr (case check spec_types ?d2 ?t of
                 Inl p \<Rightarrow> Inl p
               | Inr c3 \<Rightarrow>
                   (case LookupFunction (env c3) (container c3) ''f'' of
                      Some fn \<Rightarrow>
                        (case resolveOverload spec_types c3 (location c3 1) fn (Some ?t) [] of
                           (c4, resolution) \<Rightarrow> setResolution c4 1 resolution)
                    | None \<Rightarrow>
                        setResolution
                          (report c3 (undeclaredReference (location c3 1) (container c3) ''f''))
                          1 None))) 2 = Some Error"
    by code_simp
  then have 3: "types (projr (check spec_types ?d call_a_f)) 2 = Some Error"
    using B by (simp add: call_a_f_def)
  show ?thesis using 1 2 3 by simp
qed

text \<open>
  The claim as stated fails when \<open>q.function\<close> resolves but none of its overloads
  matches: \<open>a.f\<close> is in the function table, yet the receiver \<open>a\<close> of \<open>a.f()\<close> is
  checked (it gets the type \<open>Error\<close> and a diagnostic of its own) and \<open>f\<close> is looked
  up as an instance function.
\<close>

theorem call_with_receiver_counterexample:
  "asQualifiedName (IdentExpr 2 ''a'') = Some ''a'' \<and>
   LookupFunction arity_env [] (''a'' @ ''.'' @ ''f'') =
     Some \<lparr>fn_Name = ''a.f'', fn_Overloads = [a_f_int_overload]\<rparr> \<and>
   (case Check spec_types (parsed call_a_f) arity_env [] of
      Inl p \<Rightarrow> None
    | Inr (r, E') \<Rightarrow> Some (TypeMap r 2, errors E')) =
     Some (Some Error,
           [noMatchingOverload NoLocation ''a.f'' [] False,
            undeclaredReference NoLocation [] ''a'',
            undeclaredReference NoLocation [] ''f''])"
  by code_simp

section \<open>Comprehensions over a range that is not iterable\<close>

text \<open>
  C2 (as amended). For a comprehension whose range and initial value have been checked
  and whose range has a type of a kind other than list, map, dyn and error, the checker
  emits not-a-comprehension-range and then goes on as for any other comprehension: it
  enters the outer scope and declares the accumulator variable with the type of the
  initial value, enters the inner scope and declares the iteration variable, for which
  it has no type, and in these scopes checks the loop condition, the loop step and the
  result as the rest of \<open>checkComprehension\<close> does.
\<close>

theorem comprehension_range_not_iterable:
  assumes "check X c iterRange = Inr c1"
      and "check X c1 accuInit = Inr c2"
      and "KindOf (getType c2 (Id iterRange)) \<notin> {KindList, KindMap, KindDyn, KindError}"
  shows "check X c
           (ComprehensionExpr i iterVar iterRange accuVar accuInit loopCondition loopStep result) =
         checkLoop X
           (bindVar
              (bindVar
                 (report c2 (notAComprehensionRange (location c2 (Id iterRange))
                               (getType c2 (Id iterRange))))
                 accuVar (getType c2 (Id accuInit)))
              iterVar NilType)
           i (getType c2 (Id accuInit)) loopCondition loopStep result \<and>
         declarations
           (env (bindVar
                   (bindVar
                      (report c2 (notAComprehensionRange (location c2 (Id iterRange))
                                    (getType c2 (Id iterRange))))
                      accuVar (getType c2 (Id accuInit)))
                   iterVar NilType)) =
           \<lparr>scope_idents = [NewIdent iterVar NilType None], scope_functions = []\<rparr> #
           \<lparr>scope_idents = [NewIdent accuVar (getType c2 (Id accuInit)) None],
             scope_functions = []\<rparr> #
           declarations (env c2) \<and>
         errors
           (env (bindVar
                   (bindVar
                      (report c2 (notAComprehensionRange (location c2 (Id iterRange))
                                    (getType c2 (Id iterRange))))
                      accuVar (getType c2 (Id accuInit)))
                   iterVar NilType)) =
           errors (env c2) @
           [notAComprehensionRange (location c2 (Id iterRange)) (getType c2 (Id iterRange))]"
proof -
  have "iterVarType c2 (Id iterRange) (getType c2 (Id iterRange)) =
          (report c2 (notAComprehensionRange (location c2 (Id iterRange))
                        (getType c2 (Id iterRange))), NilType)"
    using assms(3) by (cases "KindOf (getType c2 (Id iterRange))") (simp_all add: iterVarType_def)
  moreover have "errors (env (bindVar (bindVar c3 accuVar u) iterVar v)) = errors (env c3)"
    for c3 u v
    by (simp add: bindVar_def Add_def enterScope_def)
  ultimately show ?thesis
    using assms(1,2) by (simp add: checkLoop_def report_def)
qed

theorem comprehension_range_not_iterable_witness:
  "references (projr (check spec_types (start empty_env) bad_range)) 4 =
     Some (Some (newIdentReference ''x'' None)) \<and>
   references (projr (check spec_types (start empty_env) bad_range)) 5 =
     Some (Some (newIdentReference ''acc'' None)) \<and>
   types (projr (check spec_types (start empty_env) bad_range)) 5 = Some Bool \<and>
   hd (errors (env (projr (check spec_types (start empty_env) bad_range)))) =
     notAComprehensionRange NoLocation Int64"
proof -
  let ?c = "start empty_env"
  let ?range = "ConstExpr 2 (Int64Value 1)"
  let ?init = "ConstExpr 3 (BoolValue True)"
  let ?c1 = "projr (check spec_types ?c ?range)"
  let ?c2 = "projr (check spec_types ?c1 ?init)"
  let ?inner = "bindVar (bindVar (report ?c2 (notAComprehensionRange (location ?c2 (Id ?range))
                  (getType ?c2 (Id ?range)))) ''acc'' (getType ?c2 (Id ?init))) ''x'' NilType"
  let ?loop = "checkLoop spec_types ?inner 1 (getType ?c2 (Id ?init)) (IdentExpr 4 ''x'')
                 (IdentExpr 5 ''acc'') (IdentExpr 6 ''x'')"
  have r: "check spec_types ?c ?range = Inr ?c1"
    by (rule sum.collapse(2) [symmetric]) code_simp
  have a: "check spec_types ?c1 ?init = Inr ?c2"
    by (rule sum.collapse(2) [symmetric]) code_simp
  have "KindOf (getType ?c2 (Id ?range)) = KindPrimitive"
    by code_simp
  then have k: "KindOf (getType ?c2 (Id ?range)) \<notin> {KindList, KindMap, KindDyn, KindError}"
    by simp
  have e: "check spec_types ?c bad_range = ?loop"
    using comprehension_range_not_iterable [OF r a k, THEN conjunct1, of 1 "''x''" "''acc''"
        "IdentExpr 4 ''x''" "IdentExpr 5 ''acc''" "IdentExpr 6 ''x''"]
    by (simp add: bad_range_def)
  have "references (projr ?loop) 4 = Some (Some (newIdentReference ''x'' None))"
    "references (projr ?loop) 5 = Some (Some (newIdentReference ''acc'' None))"
    "types (projr ?loop) 5 = Some Bool"
    "hd (errors (env (projr ?loop))) = notAComprehensionRange NoLocation Int64"
    by code_simp+
  then show ?thesis
    unfolding e by simp
qed

text \<open>
  The claim as stated fails: over the integer \<open>1\<close> the diagnostic is emitted, and
  still the loop condition \<open>x\<close> and the loop step \<open>acc\<close> resolve to the iteration
  variable and to the accumulator variable, the loop step is typed with the accumulator's
  type, and the result is checked, where \<open>x\<close> is no longer in scope.
\<close>

theorem comprehension_range_not_iterable_counterexample:
  "(case Check spec_types (parsed bad_range) empty_env [] of
      Inl p \<Rightarrow> None
    | Inr (r, E') \<Rightarrow>
        Some (TypeMap r 2, ReferenceMap r 4, ReferenceMap r 5, TypeMap r 5, TypeMap r 6,
              errors E')) =
     Some (Some Int64, Some (Some (newIdentReference ''x'' None)),
           Some (Some (newIdentReference ''acc'' None)), Some Bool, Some Error,
           [notAComprehensionRange NoLocation Int64,
            typeMismatch NoLocation Bool NilType,
            undeclaredReference NoLocation [] ''x''])"
  by code_simp

end
